theory Spec2Isabelle
  imports Complex_Main "HOL-Library.Word"
begin

section \<open>Chunked peer-to-peer file transfer\<close>

text \<open>
  The repository holds two file-transfer components with the same wire protocol in two
  flavours:
  \<^item> \<open>ManualLocalhostP2PFileTransfer\<close> (manual SDP exchange over an \<open>RTCDataChannel\<close>):
    control messages are JSON strings, chunks are raw binary frames stored in arrival
    order;
  \<^item> \<open>App\<close> (PeerJS \<open>DataConnection\<close>): every message is an object, chunks carry an
    explicit \<open>index\<close>.
  Both are embedded here. Functions of the first component keep their names
  (\<open>handleTransferMessage\<close>, \<open>handleChunkData\<close>, \<open>sendFile\<close>); those of the second are
  prefixed with \<open>App_\<close>.
\<close>

subsection \<open>Data model\<close>

type_synonym byte = "8 word"
type_synonym ArrayBuffer = "byte list"

text \<open>\<open>const CHUNK_SIZE = 64 * 1024\<close>\<close>

definition CHUNK_SIZE :: nat where
  "CHUNK_SIZE = 64 * 1024"

text \<open>
  \<open>type TransferMessage = FileStartMessage | FileChunkMessage | FileEndMessage\<close>.
  The fields of \<open>FileStart\<close> are \<open>name\<close>, \<open>fileType\<close>, \<open>totalChunks\<close>, \<open>totalSize\<close>, those of
  \<open>FileChunk\<close> are \<open>index\<close>, \<open>data\<close>. The numeric fields are natural numbers: the values
  that array lengths, array indices and byte counts take.
\<close>

datatype TransferMessage =
    FileStart string string nat nat
  | FileChunk nat ArrayBuffer
  | FileEnd

text \<open>
  What a data channel delivers in \<open>event.data\<close> and accepts in \<open>channel.send\<close>: a string
  (here always the JSON text of a \<open>TransferMessage\<close>; \<open>JSON.stringify\<close> and \<open>JSON.parse\<close>
  are inverse on those and are left implicit) or an \<open>ArrayBuffer\<close>.
\<close>

datatype ChannelData =
    StringData TransferMessage
  | BinaryData ArrayBuffer

text \<open>
  \<open>interface IncomingTransfer\<close>. \<open>chunks\<close> is a JavaScript array created by
  \<open>new Array(totalChunks)\<close>: a slot is empty (\<open>None\<close>) until something is stored in it.
\<close>

record IncomingTransfer =
  name :: string
  fileType :: string
  totalChunks :: nat
  totalSize :: nat
  chunks :: "ArrayBuffer option list"
  receivedCount :: nat

record Blob =
  blob_bytes :: "byte list"
  blob_type :: string

text \<open>\<open>interface ReceivedFile { name; data; timestamp }\<close>\<close>

record ReceivedFile =
  rf_name :: string
  rf_data :: Blob
  rf_timestamp :: nat

text \<open>
  The progress percentages are computed in floating point,
  \<open>Math.round((a / b) * 100)\<close>. They are display values that nothing reads back, and
  are kept as the unevaluated expression.
\<close>

datatype Progress =
    Const nat
  | RoundPct nat nat

text \<open>
  The receiving side of a component: the ref \<open>incomingTransferRef\<close> and the React state
  \<open>receivedFiles\<close>, \<open>downloadProgress\<close>, \<open>transferStatus\<close>.
\<close>

record Receiver =
  incomingTransferRef :: "IncomingTransfer option"
  receivedFiles :: "ReceivedFile list"
  downloadProgress :: Progress
  transferStatus :: string

text \<open>The state a component is mounted with.\<close>

definition initial :: Receiver where
  "initial = \<lparr>incomingTransferRef = None, receivedFiles = [],
     downloadProgress = Const 0, transferStatus = ''''\<rparr>"

subsection \<open>JavaScript arrays, buffers and blobs\<close>

datatype JsError = RangeError

text \<open>
  \<open>new Array(n)\<close>: \<open>n\<close> empty slots when \<open>n\<close> is an array length, that is below \<open>2^32\<close>;
  otherwise the constructor throws a \<open>RangeError\<close>.
\<close>

definition new_Array :: "nat \<Rightarrow> JsError + 'a option list" where
  "new_Array n = (if n < 2 ^ 32 then Inr (replicate n None) else Inl RangeError)"

text \<open>
  \<open>a[i] = v\<close>. Inside the array the slot is overwritten; at or beyond the end the array
  grows, the slots in between staying empty. (The arrays of the model have no largest
  length: JavaScript's limit of \<open>2^32 - 1\<close> slots, past which an assignment no longer
  adds a slot, is not modelled.)
\<close>

definition array_set :: "'a option list \<Rightarrow> nat \<Rightarrow> 'a \<Rightarrow> 'a option list" where
  "array_set a i v =
     (if i < length a then a[i := Some v]
      else a @ replicate (i - length a) None @ [Some v])"

text \<open>
  \<open>buf.slice(start, end)\<close> on an \<open>ArrayBuffer\<close>: both bounds are clamped to the length,
  and the result is empty when \<open>end\<close> does not exceed \<open>start\<close>.
\<close>

definition slice :: "'a list \<Rightarrow> nat \<Rightarrow> nat \<Rightarrow> 'a list" where
  "slice buf start end =
     (let first = min start (length buf); final = min end (length buf)
      in take (final - first) (drop first buf))"

text \<open>
  \<open>new Blob(parts, { type })\<close>: the parts are concatenated in index order. An empty slot
  of the array reads as \<open>undefined\<close>, which the constructor converts to the string
  \<open>"undefined"\<close> and encodes in UTF-8: nine bytes. The constructor does not keep the type
  as given: a type with a character outside U+0020 to U+007E becomes the empty string,
  any other type is converted to ASCII lower case.
\<close>

definition ascii_lower :: "char \<Rightarrow> char" where
  "ascii_lower c =
     (case map_of (zip ''ABCDEFGHIJKLMNOPQRSTUVWXYZ'' ''abcdefghijklmnopqrstuvwxyz'') c of
        None \<Rightarrow> c
      | Some l \<Rightarrow> l)"

definition normalize_type :: "string \<Rightarrow> string" where
  "normalize_type ty =
     (if list_all (\<lambda>c. 32 \<le> (of_char c :: nat) \<and> (of_char c :: nat) \<le> 126) ty
      then map ascii_lower ty else [])"

definition undefined_part :: "byte list" where
  "undefined_part = [117, 110, 100, 101, 102, 105, 110, 101, 100]"

definition blob_part :: "ArrayBuffer option \<Rightarrow> byte list" where
  "blob_part p = (case p of None \<Rightarrow> undefined_part | Some b \<Rightarrow> b)"

definition new_Blob :: "ArrayBuffer option list \<Rightarrow> string \<Rightarrow> Blob" where
  "new_Blob parts ty =
     \<lparr>blob_bytes = concat (map blob_part parts), blob_type = normalize_type ty\<rparr>"

subsection \<open>Receiver of the manual component\<close>

text \<open>
  \<open>handleTransferMessage\<close>. \<open>now\<close> is the value \<open>Date.now()\<close> returns when the handler runs.
  A \<open>file-chunk\<close> object arriving as JSON text matches neither branch. On \<open>file-start\<close>
  the object literal is evaluated before it is assigned: when \<open>new Array\<close> throws, the
  exception leaves the handler and nothing has been assigned or set.
\<close>

definition handleTransferMessage ::
  "nat \<Rightarrow> TransferMessage \<Rightarrow> Receiver \<Rightarrow> JsError + Receiver" where
  "handleTransferMessage now message r =
     (case message of
        FileStart n ft tc ts \<Rightarrow>
          (case new_Array tc of
             Inl e \<Rightarrow> Inl e
           | Inr a \<Rightarrow>
               Inr (r\<lparr>incomingTransferRef :=
                         Some \<lparr>name = n, fileType = ft, totalChunks = tc, totalSize = ts,
                               chunks = a, receivedCount = 0\<rparr>,
                       downloadProgress := Const 0,
                       transferStatus := ''Receiving: '' @ n\<rparr>))
      | FileChunk i d \<Rightarrow> Inr r
      | FileEnd \<Rightarrow>
          (case incomingTransferRef r of
             None \<Rightarrow> Inr r
           | Some transfer \<Rightarrow>
               Inr (r\<lparr>receivedFiles := receivedFiles r @
                         [\<lparr>rf_name = name transfer,
                           rf_data = new_Blob (chunks transfer) (fileType transfer),
                           rf_timestamp = now\<rparr>],
                       incomingTransferRef := None,
                       downloadProgress := Const 0,
                       transferStatus := ''''\<rparr>)))"

text \<open>\<open>handleChunkData\<close>: the chunk goes to slot \<open>receivedCount\<close>.\<close>

definition handleChunkData :: "ArrayBuffer \<Rightarrow> Receiver \<Rightarrow> Receiver" where
  "handleChunkData d r =
     (case incomingTransferRef r of
        None \<Rightarrow> r
      | Some transfer \<Rightarrow>
          r\<lparr>incomingTransferRef :=
              Some (transfer\<lparr>chunks := array_set (chunks transfer) (receivedCount transfer) d,
                             receivedCount := receivedCount transfer + 1\<rparr>),
            downloadProgress :=
              RoundPct (receivedCount transfer + 1) (totalChunks transfer)\<rparr>)"

text \<open>
  The state a listener leaves behind when it was started in state \<open>r\<close>: the state it
  returns, or \<open>r\<close> itself when it threw (the only throw comes before any assignment).
\<close>

definition settle :: "Receiver \<Rightarrow> JsError + Receiver \<Rightarrow> Receiver" where
  "settle r res = (case res of Inl e \<Rightarrow> r | Inr r' \<Rightarrow> r')"

text \<open>\<open>channel.onmessage\<close>: the state after the listener has run on one delivery.\<close>

definition onmessage :: "nat \<Rightarrow> ChannelData \<Rightarrow> Receiver \<Rightarrow> Receiver" where
  "onmessage now ev r =
     (case ev of
        StringData message \<Rightarrow> settle r (handleTransferMessage now message r)
      | BinaryData d \<Rightarrow> handleChunkData d r)"

text \<open>A sequence of deliveries, each with the clock value at its arrival.\<close>

fun receive :: "(nat \<times> ChannelData) list \<Rightarrow> Receiver \<Rightarrow> Receiver" where
  "receive [] r = r"
| "receive ((now, ev) # evs) r = receive evs (onmessage now ev r)"

subsection \<open>Receiver of the PeerJS component\<close>

text \<open>
  The listener of \<open>conn.on('data', ...)\<close> in \<open>setupConnection\<close>: the chunk goes to slot
  \<open>message.index\<close>.
\<close>

definition App_listener ::
  "nat \<Rightarrow> TransferMessage \<Rightarrow> Receiver \<Rightarrow> JsError + Receiver" where
  "App_listener now message r =
     (case message of
        FileStart n ft tc ts \<Rightarrow>
          (case new_Array tc of
             Inl e \<Rightarrow> Inl e
           | Inr a \<Rightarrow>
               Inr (r\<lparr>incomingTransferRef :=
                         Some \<lparr>name = n, fileType = ft, totalChunks = tc, totalSize = ts,
                               chunks = a, receivedCount = 0\<rparr>,
                       downloadProgress := Const 0,
                       transferStatus := ''Receiving: '' @ n\<rparr>))
      | FileChunk i d \<Rightarrow>
          (case incomingTransferRef r of
             None \<Rightarrow> Inr r
           | Some transfer \<Rightarrow>
               Inr (r\<lparr>incomingTransferRef :=
                         Some (transfer\<lparr>chunks := array_set (chunks transfer) i d,
                                        receivedCount := receivedCount transfer + 1\<rparr>),
                       downloadProgress :=
                         RoundPct (receivedCount transfer + 1) (totalChunks transfer)\<rparr>))
      | FileEnd \<Rightarrow>
          (case incomingTransferRef r of
             None \<Rightarrow> Inr r
           | Some transfer \<Rightarrow>
               Inr (r\<lparr>receivedFiles := receivedFiles r @
                         [\<lparr>rf_name = name transfer,
                           rf_data = new_Blob (chunks transfer) (fileType transfer),
                           rf_timestamp = now\<rparr>],
                       incomingTransferRef := None,
                       downloadProgress := Const 0,
                       transferStatus := ''''\<rparr>)))"

text \<open>The state after that listener has run on one delivery.\<close>

definition App_onData :: "nat \<Rightarrow> TransferMessage \<Rightarrow> Receiver \<Rightarrow> Receiver" where
  "App_onData now message r = settle r (App_listener now message r)"

fun App_receive :: "(nat \<times> TransferMessage) list \<Rightarrow> Receiver \<Rightarrow> Receiver" where
  "App_receive [] r = r"
| "App_receive ((now, message) # evs) r = App_receive evs (App_onData now message r)"

subsection \<open>Senders\<close>

text \<open>A selected \<open>File\<close>: its name, its MIME type (possibly empty) and its content.\<close>

record File =
  file_name :: string
  file_type :: string
  file_bytes :: ArrayBuffer

datatype ReadyState = Connecting | Open | Closing | Closed

text \<open>
  What \<open>sendFile\<close> observes of its \<open>RTCDataChannel\<close>: \<open>readyState\<close> when it is called;
  \<open>bufferedAmount k\<close>, the value the \<open>k\<close>-th read of the gauge returns during the call;
  \<open>send_returns k\<close>, whether the \<open>k\<close>-th call of \<open>channel.send\<close> returns (it throws once
  the channel has left the open state). The channel decides all three.
\<close>

record RTCDataChannel =
  readyState :: ReadyState
  bufferedAmount :: "nat \<Rightarrow> nat"
  send_returns :: "nat \<Rightarrow> bool"

text \<open>
  The PeerJS \<open>DataConnection\<close>: its \<open>open\<close> flag ("Boolean indicating if connection is
  ready") and the remote peer's id.
\<close>

record DataConnection =
  conn_open :: bool
  conn_peer :: string

text \<open>
  What a call of \<open>sendFile\<close> does, in order: state setters, sends on the channel
  (\<open>'p\<close> is what the channel carries), reads of the gauge, \<open>await\<close>ed timeouts (in ms),
  the reset scheduled with \<open>setTimeout\<close>, and an exception leaving the function.
\<close>

datatype 'p Effect =
    SetError string
  | SetUploadProgress Progress
  | SetTransferStatus string
  | Send 'p
  | ReadBufferedAmount nat
  | Timeout nat
  | ResetLater nat
  | ClearSelectedFile
  | Throw

text \<open>
  How a call of \<open>sendFile\<close> ends: \<open>Rejected\<close> by a guard, \<open>Aborted\<close> by a throwing
  \<open>channel.send\<close>, \<open>Completed\<close>, or not at all: \<open>Hanging\<close> in the wait for the gauge, which
  it reads every 10 ms for ever.
\<close>

datatype Outcome = Rejected | Aborted | Hanging | Completed

text \<open>
  \<open>Math.ceil(arrayBuffer.byteLength / CHUNK_SIZE)\<close>. The divisor is a power of two, so the
  floating-point quotient is the exact one.
\<close>

definition total_chunks :: "nat \<Rightarrow> nat" where
  "total_chunks byteLength = nat \<lceil>real byteLength / real CHUNK_SIZE\<rceil>"

text \<open>
  \<open>while (channel.bufferedAmount > CHUNK_SIZE * 4) await new Promise(... setTimeout(resolve, 10))\<close>,
  starting at read number \<open>k\<close> of the gauge. The result is the number of the read that
  ended the loop; the loop does not end while the gauge stays above the mark.
\<close>

partial_function (option) wait_drain :: "(nat \<Rightarrow> nat) \<Rightarrow> nat \<Rightarrow> nat option" where
  "wait_drain gauge k =
     (if gauge k > CHUNK_SIZE * 4 then wait_drain gauge (Suc k) else Some k)"

text \<open>The reads and timeouts of that loop, from read \<open>k\<close> to the read \<open>j\<close> that ended it.\<close>

definition polls :: "(nat \<Rightarrow> nat) \<Rightarrow> nat \<Rightarrow> nat \<Rightarrow> 'p Effect list" where
  "polls gauge k j =
     concat (map (\<lambda>q. [ReadBufferedAmount (gauge q), Timeout 10]) [k..<j])
     @ [ReadBufferedAmount (gauge j)]"

text \<open>
  The chunk loop of \<open>sendFile\<close>, \<open>for (let i = 0; i < totalChunks; i++)\<close>, over the indices
  still to send; \<open>nChunks\<close> is \<open>totalChunks\<close>, \<open>k\<close> the number of the next gauge read. Chunk \<open>i\<close> is call number
  \<open>i + 1\<close> of \<open>channel.send\<close>, the start message being call 0. When the wait for the
  gauge never ends the loop hangs there, having done what came before.
\<close>

fun send_chunks ::
  "RTCDataChannel \<Rightarrow> ArrayBuffer \<Rightarrow> nat \<Rightarrow> nat list \<Rightarrow> nat
     \<Rightarrow> Outcome \<times> ChannelData Effect list" where
  "send_chunks channel arrayBuffer nChunks [] k = (Completed, [])"
| "send_chunks channel arrayBuffer nChunks (i # is) k =
     (let start = i * CHUNK_SIZE;
          end = min (start + CHUNK_SIZE) (length arrayBuffer);
          chunk = slice arrayBuffer start end
      in case wait_drain (bufferedAmount channel) k of
           None \<Rightarrow> (Hanging, [])
         | Some j \<Rightarrow>
             if \<not> send_returns channel (i + 1)
             then (Aborted, polls (bufferedAmount channel) k j @ [Throw])
             else
               (case send_chunks channel arrayBuffer nChunks is (Suc j) of
                  (out, es) \<Rightarrow>
                    (out,
                     polls (bufferedAmount channel) k j
                     @ [Send (BinaryData chunk),
                        SetUploadProgress (RoundPct (i + 1) nChunks)]
                     @ es)))"

text \<open>
  \<open>ManualLocalhostP2PFileTransfer.sendFile\<close>, given the two references it reads: how
  the call ends and what it does, in order. For a call that hangs these are the effects
  before the wait that never ends. \<open>await file.arrayBuffer()\<close> is taken to deliver the
  content of the file.
\<close>

definition sendFile ::
  "RTCDataChannel option \<Rightarrow> File option \<Rightarrow> Outcome \<times> ChannelData Effect list" where
  "sendFile dataChannelRef selectedFile =
     (case dataChannelRef of
        None \<Rightarrow> (Rejected, [SetError ''No connection or file selected''])
      | Some channel \<Rightarrow>
     (case selectedFile of
        None \<Rightarrow> (Rejected, [SetError ''No connection or file selected''])
      | Some file \<Rightarrow>
          if readyState channel \<noteq> Open
          then (Rejected, [SetError ''Data channel is not open''])
          else
            (let arrayBuffer = file_bytes file;
                 totalChunks = total_chunks (length arrayBuffer);
                 pre = [SetUploadProgress (Const 0),
                        SetTransferStatus (''Sending: '' @ file_name file)];
                 start = StringData (FileStart (file_name file)
                           (if file_type file = [] then ''application/octet-stream''
                            else file_type file)
                           totalChunks (length arrayBuffer))
             in if \<not> send_returns channel 0 then (Aborted, pre @ [Throw])
                else
                  (case send_chunks channel arrayBuffer totalChunks [0..<totalChunks] 0 of
                     (out, es) \<Rightarrow>
                       if out \<noteq> Completed then (out, pre @ [Send start] @ es)
                       else if \<not> send_returns channel (totalChunks + 1)
                       then (Aborted, pre @ [Send start] @ es @ [Throw])
                       else (Completed,
                              pre @ [Send start] @ es
                              @ [Send (StringData FileEnd), ResetLater 1000,
                                 ClearSelectedFile])))))"

text \<open>
  The chunk loop of \<open>App.sendFile\<close>: no gauge is read; a fixed 10 ms pause follows every
  chunk but the last (\<open>if (i < totalChunks - 1)\<close>).
\<close>

fun App_send_chunks :: "ArrayBuffer \<Rightarrow> nat \<Rightarrow> nat list \<Rightarrow> TransferMessage Effect list" where
  "App_send_chunks arrayBuffer nChunks [] = []"
| "App_send_chunks arrayBuffer nChunks (i # is) =
     (let start = i * CHUNK_SIZE;
          end = min (start + CHUNK_SIZE) (length arrayBuffer);
          chunk = slice arrayBuffer start end
      in [Send (FileChunk i chunk), SetUploadProgress (RoundPct (i + 1) nChunks)]
         @ (if int i < int nChunks - 1 then [Timeout 10] else [])
         @ App_send_chunks arrayBuffer nChunks is)"

text \<open>
  \<open>App.sendFile\<close>. The only guard is on the two references; \<open>conn.open\<close> is not read.
  \<open>Send\<close> records a call of \<open>conn.send\<close>, which is taken to return.
\<close>

definition App_sendFile ::
  "DataConnection option \<Rightarrow> File option \<Rightarrow> Outcome \<times> TransferMessage Effect list" where
  "App_sendFile connectionRef selectedFile =
     (case connectionRef of
        None \<Rightarrow> (Rejected, [SetError ''No connection or file selected''])
      | Some conn \<Rightarrow>
     (case selectedFile of
        None \<Rightarrow> (Rejected, [SetError ''No connection or file selected''])
      | Some file \<Rightarrow>
          (let arrayBuffer = file_bytes file;
               totalChunks = total_chunks (length arrayBuffer)
           in (Completed,
                [SetUploadProgress (Const 0),
                 SetTransferStatus (''Sending: '' @ file_name file),
                 Send (FileStart (file_name file) (file_type file) totalChunks
                         (length arrayBuffer))]
                @ App_send_chunks arrayBuffer totalChunks [0..<totalChunks]
                @ [Send FileEnd, ResetLater 1000, ClearSelectedFile]))))"

text \<open>The payloads a trace puts on the channel, in order.\<close>

fun sent :: "'p Effect list \<Rightarrow> 'p list" where
  "sent [] = []"
| "sent (Send p # es) = p # sent es"
| "sent (e # es) = sent es"


subsection \<open>Notions used to state the properties\<close>

text \<open>The number of non-empty slots of a buffer.\<close>

definition filled :: "'a option list \<Rightarrow> nat" where
  "filled a = length (filter (\<lambda>c. c \<noteq> None) a)"

text \<open>A transfer is complete when each of its \<open>totalChunks\<close> slots holds a chunk.\<close>

definition complete :: "IncomingTransfer \<Rightarrow> bool" where
  "complete t =
     (totalChunks t \<le> length (chunks t)
      \<and> list_all (\<lambda>c. c \<noteq> None) (take (totalChunks t) (chunks t)))"

text \<open>
  An indexed chunk is fresh for a receiver when it addresses an empty slot inside the
  buffer; a sequence of messages is fresh when each chunk is, at the moment it arrives.
\<close>

definition fresh_slot :: "TransferMessage \<Rightarrow> Receiver \<Rightarrow> bool" where
  "fresh_slot message r =
     (case message of
        FileChunk i d \<Rightarrow>
          (case incomingTransferRef r of
             None \<Rightarrow> True
           | Some t \<Rightarrow> i < length (chunks t) \<and> chunks t ! i = None)
      | _ \<Rightarrow> True)"

fun fresh_run :: "(nat \<times> TransferMessage) list \<Rightarrow> Receiver \<Rightarrow> bool" where
  "fresh_run [] r = True"
| "fresh_run ((now, message) # evs) r =
     (fresh_slot message r \<and> fresh_run evs (App_onData now message r))"


text \<open>What may stand at the end of a trace, or of the part of it that a hang cuts off.\<close>

definition settled :: "ChannelData Effect \<Rightarrow> bool" where
  "settled e = (case e of ReadBufferedAmount v \<Rightarrow> False | Timeout ms \<Rightarrow> False | _ \<Rightarrow> True)"

text \<open>Example channels and files.\<close>

definition clear_channel :: RTCDataChannel where
  "clear_channel =
     \<lparr>readyState = Open, bufferedAmount = (\<lambda>k. 0), send_returns = (\<lambda>k. True)\<rparr>"



definition small_file :: File where
  "small_file = \<lparr>file_name = ''a.txt'', file_type = ''text/plain'', file_bytes = [1, 2, 3]\<rparr>"

definition empty_file :: File where
  "empty_file = \<lparr>file_name = ''e'', file_type = [], file_bytes = []\<rparr>"

text \<open>
  Shapes of the buffer. In arrival order: the first \<open>receivedCount\<close> slots hold the
  chunks received so far and the others, up to \<open>totalChunks\<close>, are empty. Counted: the
  buffer has \<open>totalChunks\<close> slots of which \<open>receivedCount\<close> are filled.
\<close>

definition arrival_shape :: "Receiver \<Rightarrow> bool" where
  "arrival_shape r =
     (case incomingTransferRef r of
        None \<Rightarrow> True
      | Some t \<Rightarrow>
          (\<exists>pre. chunks t = map Some pre @ replicate (totalChunks t - length pre) None
                 \<and> receivedCount t = length pre))"

definition counted_shape :: "Receiver \<Rightarrow> bool" where
  "counted_shape r =
     (case incomingTransferRef r of
        None \<Rightarrow> True
      | Some t \<Rightarrow>
          filled (chunks t) = receivedCount t \<and> length (chunks t) = totalChunks t)"

definition bounded_shape :: "Receiver \<Rightarrow> bool" where
  "bounded_shape r =
     (case incomingTransferRef r of
        None \<Rightarrow> True
      | Some t \<Rightarrow> filled (chunks t) \<le> receivedCount t)"

text \<open>
  \<open>store cs b\<close>: the buffer \<open>b\<close> after the indexed chunks \<open>cs\<close> have been written into it
  one after the other, each inside the buffer.
\<close>

definition store :: "(nat \<times> 'a) list \<Rightarrow> 'a option list \<Rightarrow> 'a option list" where
  "store cs b = fold (\<lambda>c b. b[fst c := Some (snd c)]) cs b"

text \<open>
  A file of two chunks, one full chunk and 4464 bytes more, and a file of 200,000 bytes.
\<close>

definition two_chunk_file :: File where
  "two_chunk_file = \<lparr>file_name = ''b.bin'', file_type = [], file_bytes = replicate 70000 0\<rparr>"

definition four_chunk_file :: File where
  "four_chunk_file =
     \<lparr>file_name = ''c.bin'', file_type = ''Text/Plain'', file_bytes = replicate 200000 0\<rparr>"

section \<open>Properties\<close>

subsection \<open>Chunk count\<close>

lemma total_chunks_div: "total_chunks n = (n + 65535) div 65536"
  unfolding total_chunks_def CHUNK_SIZE_def by linarith

lemma total_chunks_covers: "n \<le> total_chunks n * CHUNK_SIZE"
  unfolding total_chunks_div CHUNK_SIZE_def by simp

lemma total_chunks_least: "total_chunks n = (LEAST k. n \<le> k * CHUNK_SIZE)"
proof -
  have b: "total_chunks n \<le> k" if "n \<le> k * CHUNK_SIZE" for k
    using that unfolding total_chunks_div CHUNK_SIZE_def by simp
  show ?thesis
    by (rule Least_equality [symmetric]) (auto intro: total_chunks_covers b)
qed

lemma total_chunks_zero: "total_chunks n = 0 \<longleftrightarrow> n = 0"
  unfolding total_chunks_div by arith

text \<open>
  Claim C9. The chunk count both senders announce is the ceiling of the file size
  divided by the chunk size of 64 KiB: the least number of chunks of that size that
  cover the file. It is zero exactly for the empty file.
\<close>

theorem chunk_count_is_ceiling:
  "CHUNK_SIZE = 64 * 1024
   \<and> total_chunks sz = nat \<lceil>real sz / real CHUNK_SIZE\<rceil>
   \<and> total_chunks sz = (LEAST k. sz \<le> k * CHUNK_SIZE)
   \<and> (total_chunks sz = 0 \<longleftrightarrow> sz = 0)"
  using total_chunks_least [of sz] total_chunks_zero [of sz]
  by (simp add: CHUNK_SIZE_def total_chunks_def)

subsection \<open>Receiver: single steps\<close>

lemma new_Array_small: "n < 2 ^ 32 \<Longrightarrow> new_Array n = Inr (replicate n None)"
  by (simp add: new_Array_def)

lemma new_Array_large: "2 ^ 32 \<le> n \<Longrightarrow> new_Array n = Inl RangeError"
  by (simp add: new_Array_def)

lemma onmessage_start:
  "tc < 2 ^ 32 \<Longrightarrow>
   onmessage now (StringData (FileStart n ft tc ts)) r =
     r\<lparr>incomingTransferRef :=
          Some \<lparr>name = n, fileType = ft, totalChunks = tc, totalSize = ts,
                chunks = replicate tc None, receivedCount = 0\<rparr>,
        downloadProgress := Const 0,
        transferStatus := ''Receiving: '' @ n\<rparr>"
  by (simp add: onmessage_def handleTransferMessage_def settle_def new_Array_small)

lemma onmessage_start_throws:
  "2 ^ 32 \<le> tc \<Longrightarrow> onmessage now (StringData (FileStart n ft tc ts)) r = r"
  by (simp add: onmessage_def handleTransferMessage_def settle_def new_Array_large)

lemma onmessage_end:
  "onmessage now (StringData FileEnd) r =
     (case incomingTransferRef r of
        None \<Rightarrow> r
      | Some transfer \<Rightarrow>
          r\<lparr>receivedFiles := receivedFiles r @
               [\<lparr>rf_name = name transfer,
                 rf_data = new_Blob (chunks transfer) (fileType transfer),
                 rf_timestamp = now\<rparr>],
            incomingTransferRef := None,
            downloadProgress := Const 0,
            transferStatus := ''''\<rparr>)"
  by (simp add: onmessage_def handleTransferMessage_def settle_def split: option.splits)

lemma onmessage_chunk_text: "onmessage now (StringData (FileChunk i d)) r = r"
  by (simp add: onmessage_def handleTransferMessage_def settle_def)

lemma onmessage_binary: "onmessage now (BinaryData d) r = handleChunkData d r"
  by (simp add: onmessage_def)

lemma App_onData_start:
  "tc < 2 ^ 32 \<Longrightarrow>
   App_onData now (FileStart n ft tc ts) r =
     r\<lparr>incomingTransferRef :=
          Some \<lparr>name = n, fileType = ft, totalChunks = tc, totalSize = ts,
                chunks = replicate tc None, receivedCount = 0\<rparr>,
        downloadProgress := Const 0,
        transferStatus := ''Receiving: '' @ n\<rparr>"
  by (simp add: App_onData_def App_listener_def settle_def new_Array_small)

lemma App_onData_start_throws:
  "2 ^ 32 \<le> tc \<Longrightarrow> App_onData now (FileStart n ft tc ts) r = r"
  by (simp add: App_onData_def App_listener_def settle_def new_Array_large)

lemma App_onData_end:
  "App_onData now FileEnd r =
     (case incomingTransferRef r of
        None \<Rightarrow> r
      | Some transfer \<Rightarrow>
          r\<lparr>receivedFiles := receivedFiles r @
               [\<lparr>rf_name = name transfer,
                 rf_data = new_Blob (chunks transfer) (fileType transfer),
                 rf_timestamp = now\<rparr>],
            incomingTransferRef := None,
            downloadProgress := Const 0,
            transferStatus := ''''\<rparr>)"
  by (simp add: App_onData_def App_listener_def settle_def split: option.splits)

lemma App_onData_chunk_step:
  "App_onData now (FileChunk i d) r =
     (case incomingTransferRef r of
        None \<Rightarrow> r
      | Some transfer \<Rightarrow>
          r\<lparr>incomingTransferRef :=
               Some (transfer\<lparr>chunks := array_set (chunks transfer) i d,
                              receivedCount := receivedCount transfer + 1\<rparr>),
            downloadProgress :=
              RoundPct (receivedCount transfer + 1) (totalChunks transfer)\<rparr>)"
  by (simp add: App_onData_def App_listener_def settle_def split: option.splits)

lemma handleChunkData_idle: "incomingTransferRef r = None \<Longrightarrow> handleChunkData d r = r"
  by (simp add: handleChunkData_def)

lemma App_onData_chunk_idle:
  "incomingTransferRef r = None \<Longrightarrow> App_onData now (FileChunk i d) r = r"
  by (simp add: App_onData_chunk_step)

lemma idle_after_end: "incomingTransferRef (onmessage now (StringData FileEnd) r) = None"
  by (simp add: onmessage_end split: option.splits)

lemma App_idle_after_end: "incomingTransferRef (App_onData now FileEnd r) = None"
  by (simp add: App_onData_end split: option.splits)

text \<open>
  Claim C10. A chunk that arrives while no transfer is in progress changes nothing:
  the receiver's state is the same after it, so everything that follows runs as if the
  chunk had never come. No transfer is in progress in the state a component starts in,
  nor after an end message has been handled.
\<close>

theorem chunk_while_idle_discarded:
  assumes "incomingTransferRef r = None"
  shows "onmessage now (BinaryData d) r = r
    \<and> App_onData now (FileChunk i d) r = r
    \<and> receive ((now, BinaryData d) # evs) r = receive evs r
    \<and> App_receive ((now, FileChunk i d) # evs') r = App_receive evs' r
    \<and> incomingTransferRef initial = None
    \<and> incomingTransferRef (onmessage now' (StringData FileEnd) r') = None
    \<and> incomingTransferRef (App_onData now' FileEnd r') = None"
  using assms
  by (simp add: onmessage_binary handleChunkData_idle App_onData_chunk_idle
      idle_after_end App_idle_after_end initial_def)

theorem chunk_while_idle_discarded_witness:
  "incomingTransferRef initial = None
   \<and> onmessage 7 (BinaryData [1, 2]) initial = initial
   \<and> App_onData 7 (FileChunk 0 [1, 2]) initial = initial
   \<and> receivedFiles (receive [(7, BinaryData [1, 2]), (8, StringData FileEnd)] initial) = []
   \<and> receivedFiles (App_receive [(7, FileChunk 0 [1, 2]), (8, FileEnd)] initial) = []"
proof -
  have idle: "incomingTransferRef initial = None"
    by (simp add: initial_def)
  show ?thesis
    using idle
      chunk_while_idle_discarded [OF idle, of 7 "[1, 2]" 0 "[(8, StringData FileEnd)]"
        "[(8, FileEnd)]"]
    by (simp add: onmessage_end App_onData_end initial_def)
qed

text \<open>
  Claim C3. An end message that arrives while a transfer is in progress builds a blob
  from whatever the buffer holds (\<open>receivedCount\<close> is not looked at), appends the file
  to the received files and clears the transfer reference.
\<close>

theorem end_assembles_without_check:
  assumes "incomingTransferRef r = Some transfer"
  shows "onmessage now (StringData FileEnd) r =
      r\<lparr>receivedFiles := receivedFiles r @
           [\<lparr>rf_name = name transfer,
             rf_data = new_Blob (chunks transfer) (fileType transfer),
             rf_timestamp = now\<rparr>],
        incomingTransferRef := None,
        downloadProgress := Const 0,
        transferStatus := ''''\<rparr>
    \<and> App_onData now FileEnd r = onmessage now (StringData FileEnd) r"
  using assms by (simp add: onmessage_end App_onData_end)

text \<open>The witness: one chunk of two has arrived when the end message comes.\<close>

theorem end_assembles_without_check_witness:
  "incomingTransferRef
     (initial\<lparr>incomingTransferRef :=
        Some \<lparr>name = ''a'', fileType = ''t'', totalChunks = 2, totalSize = 3,
              chunks = [Some [1, 2], None], receivedCount = 1\<rparr>\<rparr>)
   = Some \<lparr>name = ''a'', fileType = ''t'', totalChunks = 2, totalSize = 3,
           chunks = [Some [1, 2], None], receivedCount = 1\<rparr>
   \<and> onmessage 9 (StringData FileEnd)
     (initial\<lparr>incomingTransferRef :=
        Some \<lparr>name = ''a'', fileType = ''t'', totalChunks = 2, totalSize = 3,
              chunks = [Some [1, 2], None], receivedCount = 1\<rparr>\<rparr>)
   = \<lparr>incomingTransferRef = None,
      receivedFiles =
        [\<lparr>rf_name = ''a'',
          rf_data = \<lparr>blob_bytes = [1, 2, 117, 110, 100, 101, 102, 105, 110, 101, 100],
                     blob_type = ''t''\<rparr>,
          rf_timestamp = 9\<rparr>],
      downloadProgress = Const 0, transferStatus = ''''\<rparr>"
  using end_assembles_without_check
    [of "initial\<lparr>incomingTransferRef :=
        Some \<lparr>name = ''a'', fileType = ''t'', totalChunks = 2, totalSize = 3,
              chunks = [Some [1, 2], None], receivedCount = 1\<rparr>\<rparr>"
        "\<lparr>name = ''a'', fileType = ''t'', totalChunks = 2, totalSize = 3,
              chunks = [Some [1, 2], None], receivedCount = 1\<rparr>" 9]
  by (simp add: initial_def new_Blob_def blob_part_def undefined_part_def
      normalize_type_def ascii_lower_def)

lemma start_forgets:
  "tc < 2 ^ 32 \<Longrightarrow>
   onmessage now (StringData (FileStart n ft tc ts)) (r\<lparr>incomingTransferRef := x\<rparr>)
     = onmessage now (StringData (FileStart n ft tc ts)) r"
  by (simp add: onmessage_start)

lemma App_start_forgets:
  "tc < 2 ^ 32 \<Longrightarrow>
   App_onData now (FileStart n ft tc ts) (r\<lparr>incomingTransferRef := x\<rparr>)
     = App_onData now (FileStart n ft tc ts) r"
  by (simp add: App_onData_start)

text \<open>
  Claim C7. A start message that arrives while a transfer is in progress and announces
  a chunk count below \<open>2^32\<close> installs a buffer of \<open>totalChunks\<close> empty slots with
  \<open>receivedCount = 0\<close>. From then on the receiver behaves, for every further sequence of
  messages, exactly as if it had been idle when the start message came: nothing of the
  superseded transfer is in the new buffer or in any file completed later. With a chunk
  count of \<open>2^32\<close> or more, \<open>new Array\<close> throws in both listeners before anything is
  assigned: the state, and with it the transfer in progress, stays as it was.
\<close>

theorem start_replaces_transfer:
  assumes "incomingTransferRef r = Some old"
  shows "(tc < 2 ^ 32 \<longrightarrow>
      incomingTransferRef (onmessage now (StringData (FileStart n ft tc ts)) r) =
         Some \<lparr>name = n, fileType = ft, totalChunks = tc, totalSize = ts,
               chunks = replicate tc None, receivedCount = 0\<rparr>
      \<and> incomingTransferRef (App_onData now (FileStart n ft tc ts) r) =
         Some \<lparr>name = n, fileType = ft, totalChunks = tc, totalSize = ts,
               chunks = replicate tc None, receivedCount = 0\<rparr>
      \<and> receive ((now, StringData (FileStart n ft tc ts)) # evs) r =
         receive ((now, StringData (FileStart n ft tc ts)) # evs)
           (r\<lparr>incomingTransferRef := None\<rparr>)
      \<and> App_receive ((now, FileStart n ft tc ts) # evs') r =
         App_receive ((now, FileStart n ft tc ts) # evs') (r\<lparr>incomingTransferRef := None\<rparr>))
    \<and> (2 ^ 32 \<le> tc \<longrightarrow>
      handleTransferMessage now (FileStart n ft tc ts) r = Inl RangeError
      \<and> App_listener now (FileStart n ft tc ts) r = Inl RangeError
      \<and> onmessage now (StringData (FileStart n ft tc ts)) r = r
      \<and> App_onData now (FileStart n ft tc ts) r = r
      \<and> incomingTransferRef (receive [(now, StringData (FileStart n ft tc ts))] r) = Some old
      \<and> incomingTransferRef (App_receive [(now, FileStart n ft tc ts)] r) = Some old)"
proof (intro conjI impI)
  assume small: "tc < 2 ^ 32"
  show "incomingTransferRef (onmessage now (StringData (FileStart n ft tc ts)) r) =
         Some \<lparr>name = n, fileType = ft, totalChunks = tc, totalSize = ts,
               chunks = replicate tc None, receivedCount = 0\<rparr>"
    using small by (simp add: onmessage_start)
  show "incomingTransferRef (App_onData now (FileStart n ft tc ts) r) =
         Some \<lparr>name = n, fileType = ft, totalChunks = tc, totalSize = ts,
               chunks = replicate tc None, receivedCount = 0\<rparr>"
    using small by (simp add: App_onData_start)
  show "receive ((now, StringData (FileStart n ft tc ts)) # evs) r =
         receive ((now, StringData (FileStart n ft tc ts)) # evs)
           (r\<lparr>incomingTransferRef := None\<rparr>)"
    using small by (simp add: start_forgets)
  show "App_receive ((now, FileStart n ft tc ts) # evs') r =
         App_receive ((now, FileStart n ft tc ts) # evs') (r\<lparr>incomingTransferRef := None\<rparr>)"
    using small by (simp add: App_start_forgets)
next
  assume large: "2 ^ 32 \<le> tc"
  show "handleTransferMessage now (FileStart n ft tc ts) r = Inl RangeError"
    using large by (simp add: handleTransferMessage_def new_Array_large)
  show "App_listener now (FileStart n ft tc ts) r = Inl RangeError"
    using large by (simp add: App_listener_def new_Array_large)
  show "onmessage now (StringData (FileStart n ft tc ts)) r = r"
    using large by (rule onmessage_start_throws)
  show "App_onData now (FileStart n ft tc ts) r = r"
    using large by (rule App_onData_start_throws)
  show "incomingTransferRef (receive [(now, StringData (FileStart n ft tc ts))] r) = Some old"
    using large assms by (simp add: onmessage_start_throws)
  show "incomingTransferRef (App_receive [(now, FileStart n ft tc ts)] r) = Some old"
    using large assms by (simp add: App_onData_start_throws)
qed

text \<open>
  The witness: a transfer holding the chunk \<open>[9, 9]\<close> is superseded, and the file
  completed afterwards holds only the new transfer's chunk; a start message announcing
  \<open>2^32\<close> chunks leaves the same transfer in place.
\<close>

theorem start_replaces_transfer_witness:
  "incomingTransferRef
     (initial\<lparr>incomingTransferRef :=
        Some \<lparr>name = ''a'', fileType = ''t'', totalChunks = 2, totalSize = 3,
              chunks = [Some [9, 9], None], receivedCount = 1\<rparr>\<rparr>)
   = Some \<lparr>name = ''a'', fileType = ''t'', totalChunks = 2, totalSize = 3,
           chunks = [Some [9, 9], None], receivedCount = 1\<rparr>
   \<and> (1 :: nat) < 2 ^ 32
   \<and> incomingTransferRef (onmessage 1 (StringData (FileStart ''b'' ''u'' 1 1))
       (initial\<lparr>incomingTransferRef :=
          Some \<lparr>name = ''a'', fileType = ''t'', totalChunks = 2, totalSize = 3,
                chunks = [Some [9, 9], None], receivedCount = 1\<rparr>\<rparr>))
     = Some \<lparr>name = ''b'', fileType = ''u'', totalChunks = 1, totalSize = 1,
             chunks = [None], receivedCount = 0\<rparr>
   \<and> receivedFiles (receive
       [(1, StringData (FileStart ''b'' ''u'' 1 1)), (2, BinaryData [5]),
        (3, StringData FileEnd)]
       (initial\<lparr>incomingTransferRef :=
          Some \<lparr>name = ''a'', fileType = ''t'', totalChunks = 2, totalSize = 3,
                chunks = [Some [9, 9], None], receivedCount = 1\<rparr>\<rparr>))
     = [\<lparr>rf_name = ''b'', rf_data = \<lparr>blob_bytes = [5], blob_type = ''u''\<rparr>,
         rf_timestamp = 3\<rparr>]
   \<and> (2 :: nat) ^ 32 \<le> 4294967296
   \<and> onmessage 1 (StringData (FileStart ''b'' ''u'' 4294967296 1))
       (initial\<lparr>incomingTransferRef :=
          Some \<lparr>name = ''a'', fileType = ''t'', totalChunks = 2, totalSize = 3,
                chunks = [Some [9, 9], None], receivedCount = 1\<rparr>\<rparr>)
     = initial\<lparr>incomingTransferRef :=
          Some \<lparr>name = ''a'', fileType = ''t'', totalChunks = 2, totalSize = 3,
                chunks = [Some [9, 9], None], receivedCount = 1\<rparr>\<rparr>"
  using start_replaces_transfer
    [of "initial\<lparr>incomingTransferRef :=
          Some \<lparr>name = ''a'', fileType = ''t'', totalChunks = 2, totalSize = 3,
                chunks = [Some [9, 9], None], receivedCount = 1\<rparr>\<rparr>"
        "\<lparr>name = ''a'', fileType = ''t'', totalChunks = 2, totalSize = 3,
                chunks = [Some [9, 9], None], receivedCount = 1\<rparr>"
        1 1 "''b''" "''u''" 1
        "[(2, BinaryData [5]), (3, StringData FileEnd)]" "[]"]
    start_replaces_transfer
    [of "initial\<lparr>incomingTransferRef :=
          Some \<lparr>name = ''a'', fileType = ''t'', totalChunks = 2, totalSize = 3,
                chunks = [Some [9, 9], None], receivedCount = 1\<rparr>\<rparr>"
        "\<lparr>name = ''a'', fileType = ''t'', totalChunks = 2, totalSize = 3,
                chunks = [Some [9, 9], None], receivedCount = 1\<rparr>"
        4294967296 1 "''b''" "''u''" 1 "[]" "[]"]
  by (simp add: initial_def onmessage_start onmessage_end onmessage_binary
      handleChunkData_def array_set_def new_Blob_def blob_part_def
      normalize_type_def ascii_lower_def)

text \<open>
  The claim fails for a start message that announces \<open>2^32\<close> chunks: the transfer of
  file \<open>a\<close>, holding the chunk \<open>[9, 9]\<close>, is not replaced; the next frame, sent for the
  new transfer, lands in the old buffer, and the end message completes file \<open>a\<close> with
  the bytes of both.
\<close>

theorem oversized_start_counterexample:
  "receive
     [(1, StringData (FileStart ''b'' ''u'' 4294967296 1)), (2, BinaryData [5]),
      (3, StringData FileEnd)]
     (initial\<lparr>incomingTransferRef :=
        Some \<lparr>name = ''a'', fileType = ''t'', totalChunks = 2, totalSize = 3,
              chunks = [Some [9, 9], None], receivedCount = 1\<rparr>\<rparr>)
   = initial\<lparr>receivedFiles :=
       [\<lparr>rf_name = ''a'', rf_data = \<lparr>blob_bytes = [9, 9, 5], blob_type = ''t''\<rparr>,
         rf_timestamp = 3\<rparr>]\<rparr>
   \<and> incomingTransferRef (App_onData 1 (FileStart ''b'' ''u'' 4294967296 1)
       (initial\<lparr>incomingTransferRef :=
          Some \<lparr>name = ''a'', fileType = ''t'', totalChunks = 2, totalSize = 3,
                chunks = [Some [9, 9], None], receivedCount = 1\<rparr>\<rparr>))
     = Some \<lparr>name = ''a'', fileType = ''t'', totalChunks = 2, totalSize = 3,
             chunks = [Some [9, 9], None], receivedCount = 1\<rparr>"
  by (simp add: initial_def onmessage_start_throws App_onData_start_throws onmessage_end
      onmessage_binary handleChunkData_def array_set_def new_Blob_def blob_part_def
      normalize_type_def ascii_lower_def)

subsection \<open>Sending on a channel that is not open\<close>

lemma sendFile_not_open:
  "readyState channel \<noteq> Open \<Longrightarrow>
   sendFile (Some channel) (Some file) =
     (Rejected, [SetError ''Data channel is not open''])"
  by (simp add: sendFile_def)

lemma sendFile_no_refs:
  "sendFile None selectedFile = (Rejected, [SetError ''No connection or file selected''])"
  "sendFile dataChannelRef None = (Rejected, [SetError ''No connection or file selected''])"
  by (simp_all add: sendFile_def split: option.splits)

text \<open>
  Claim C6. The manual component rejects a send on a channel that is not open
  (\<open>sendFile_not_open\<close>). \<open>App.sendFile\<close> does not: with a connection whose \<open>open\<close> flag is
  still false and a file selected, it reports no error, walks through the whole
  protocol, calling \<open>conn.send\<close> for the start message, the chunk and the end message,
  and clears the selection.
\<close>

theorem App_sendFile_ignores_open_flag:
  "App_sendFile (Some \<lparr>conn_open = False, conn_peer = ''peer''\<rparr>)
       (Some \<lparr>file_name = ''a.txt'', file_type = ''text/plain'', file_bytes = [1, 2, 3]\<rparr>)
   = (Completed,
      [SetUploadProgress (Const 0), SetTransferStatus ''Sending: a.txt'',
       Send (FileStart ''a.txt'' ''text/plain'' 1 3),
       Send (FileChunk 0 [1, 2, 3]), SetUploadProgress (RoundPct 1 1),
       Send FileEnd, ResetLater 1000, ClearSelectedFile])"
  by (simp add: App_sendFile_def total_chunks_div slice_def CHUNK_SIZE_def)

subsection \<open>The drain loop\<close>


lemma wait_drain_SomeI:
  "k \<le> j \<Longrightarrow> g j \<le> CHUNK_SIZE * 4 \<Longrightarrow> (\<forall>q. k \<le> q \<and> q < j \<longrightarrow> CHUNK_SIZE * 4 < g q)
     \<Longrightarrow> wait_drain g k = Some j"
proof (induction "j - k" arbitrary: k)
  case 0
  then have "k = j" by simp
  with 0 show ?case by (subst wait_drain.simps) simp
next
  case (Suc d)
  then have "k < j" by simp
  with Suc.prems have hi: "CHUNK_SIZE * 4 < g k" by simp
  have "wait_drain g (Suc k) = Some j"
    using Suc.hyps Suc.prems \<open>k < j\<close> by (intro Suc.hyps(1)) auto
  with hi show ?case by (subst wait_drain.simps) simp
qed

lemma wait_drain_eventually:
  assumes "\<exists>j\<ge>k. g j \<le> CHUNK_SIZE * 4"
  shows "\<exists>j. wait_drain g k = Some j"
proof -
  define j where "j = (LEAST j. k \<le> j \<and> g j \<le> CHUNK_SIZE * 4)"
  from assms have "\<exists>j. k \<le> j \<and> g j \<le> CHUNK_SIZE * 4" by auto
  then have p: "k \<le> j \<and> g j \<le> CHUNK_SIZE * 4"
    unfolding j_def by (rule LeastI_ex)
  have "CHUNK_SIZE * 4 < g q" if "k \<le> q" "q < j" for q
    using that not_less_Least [of q "\<lambda>j. k \<le> j \<and> g j \<le> CHUNK_SIZE * 4"]
    unfolding j_def by auto
  with p have "wait_drain g k = Some j"
    by (intro wait_drain_SomeI) auto
  then show ?thesis ..
qed



subsection \<open>What a trace sends and reads\<close>

lemma sent_append: "sent (xs @ ys) = sent xs @ sent ys"
  by (induction xs rule: sent.induct) auto

lemma sent_reads: "sent (concat (map (\<lambda>q. [ReadBufferedAmount (g q), Timeout 10]) qs)) = []"
  by (induction qs) auto

lemma sent_polls: "sent (polls g k j) = []"
  unfolding polls_def by (simp add: sent_append sent_reads)




subsection \<open>The chunk loop\<close>

lemma send_chunks_Cons:
  "send_chunks ch buf n (i # is) k =
     (case wait_drain (bufferedAmount ch) k of
        None \<Rightarrow> (Hanging, [])
      | Some j \<Rightarrow>
          if \<not> send_returns ch (i + 1)
          then (Aborted, polls (bufferedAmount ch) k j @ [Throw])
          else (fst (send_chunks ch buf n is (Suc j)),
                polls (bufferedAmount ch) k j
                @ [Send (BinaryData (slice buf (i * CHUNK_SIZE)
                      (min (i * CHUNK_SIZE + CHUNK_SIZE) (length buf)))),
                   SetUploadProgress (RoundPct (i + 1) n)]
                @ snd (send_chunks ch buf n is (Suc j))))"
  by (simp add: Let_def split: option.splits prod.splits)

lemma send_chunks_sent:
  "fst (send_chunks ch buf n is k) = Completed \<Longrightarrow>
   sent (snd (send_chunks ch buf n is k)) =
     map (\<lambda>i. BinaryData (slice buf (i * CHUNK_SIZE)
                 (min (i * CHUNK_SIZE + CHUNK_SIZE) (length buf)))) is"
proof (induction "is" arbitrary: k)
  case Nil
  then show ?case by simp
next
  case (Cons i "is")
  show ?case
  proof (cases "wait_drain (bufferedAmount ch) k")
    case None
    with Cons.prems show ?thesis
      by (simp only: send_chunks_Cons) simp
  next
    case (Some j)
    show ?thesis
    proof (cases "send_returns ch (i + 1)")
      case False
      with Some Cons.prems show ?thesis
        by (simp only: send_chunks_Cons) simp
    next
      case True
      with Some Cons.prems have "fst (send_chunks ch buf n is (Suc j)) = Completed"
        by (simp only: send_chunks_Cons) simp
      from Cons.IH [OF this] Some True show ?thesis
        by (simp only: send_chunks_Cons) (simp add: sent_append sent_polls)
    qed
  qed
qed

lemma send_chunks_completes:
  assumes "\<And>i. send_returns ch i"
    and "\<And>k. \<exists>j\<ge>k. bufferedAmount ch j \<le> CHUNK_SIZE * 4"
  shows "fst (send_chunks ch buf n is k) = Completed"
proof (induction "is" arbitrary: k)
  case Nil
  show ?case by simp
next
  case (Cons i "is")
  from assms(2) obtain j where j: "wait_drain (bufferedAmount ch) k = Some j"
    using wait_drain_eventually by blast
  from Cons [of "Suc j"] j assms(1) show ?case
    by (simp only: send_chunks_Cons) simp
qed


subsection \<open>Gating\<close>


lemma settled_simps [simp]:
  "settled (SetError s) = True"
  "settled (SetUploadProgress x) = True"
  "settled (SetTransferStatus s) = True"
  "settled (Send p) = True"
  "settled (ResetLater t) = True"
  "settled ClearSelectedFile = True"
  "settled Throw = True"
  "settled (ReadBufferedAmount v) = False"
  "settled (Timeout ms) = False"
  by (simp_all add: settled_def)








lemma polls_not_Nil [simp]: "polls g k j \<noteq> []"
  by (simp add: polls_def)

lemma last_polls [simp]: "last (polls g k j) = ReadBufferedAmount (g j)"
  by (simp add: polls_def)




subsection \<open>The traces of sendFile\<close>

lemma sendFile_rejects:
  assumes "dc = None \<or> sf = None \<or> (\<exists>ch. dc = Some ch \<and> readyState ch \<noteq> Open)"
  shows "\<exists>e. sendFile dc sf = (Rejected, [SetError e])"
  using assms by (auto simp: sendFile_def split: option.splits)

lemma sendFile_open:
  assumes "readyState ch = Open"
  shows "sendFile (Some ch) (Some f) =
     (if \<not> send_returns ch 0
      then (Aborted, [SetUploadProgress (Const 0),
                      SetTransferStatus (''Sending: '' @ file_name f), Throw])
      else
        (if fst (send_chunks ch (file_bytes f) (total_chunks (length (file_bytes f)))
                   [0..<total_chunks (length (file_bytes f))] 0) \<noteq> Completed
         then fst (send_chunks ch (file_bytes f) (total_chunks (length (file_bytes f)))
                     [0..<total_chunks (length (file_bytes f))] 0)
         else if \<not> send_returns ch (total_chunks (length (file_bytes f)) + 1)
         then Aborted else Completed,
         [SetUploadProgress (Const 0),
          SetTransferStatus (''Sending: '' @ file_name f),
          Send (StringData (FileStart (file_name f)
             (if file_type f = [] then ''application/octet-stream'' else file_type f)
             (total_chunks (length (file_bytes f))) (length (file_bytes f))))]
         @ snd (send_chunks ch (file_bytes f) (total_chunks (length (file_bytes f)))
                  [0..<total_chunks (length (file_bytes f))] 0)
         @ (if fst (send_chunks ch (file_bytes f) (total_chunks (length (file_bytes f)))
                      [0..<total_chunks (length (file_bytes f))] 0) \<noteq> Completed
            then []
            else if \<not> send_returns ch (total_chunks (length (file_bytes f)) + 1)
            then [Throw]
            else [Send (StringData FileEnd), ResetLater 1000, ClearSelectedFile])))"
  using assms by (simp add: sendFile_def Let_def split: prod.splits)




lemma sendFile_completes:
  assumes "readyState ch = Open" and "\<And>i. send_returns ch i"
    and "\<And>k. \<exists>j\<ge>k. bufferedAmount ch j \<le> CHUNK_SIZE * 4"
  shows "fst (sendFile (Some ch) (Some f)) = Completed"
  unfolding sendFile_open [OF assms(1)]
  using assms(2) send_chunks_completes [of ch, OF assms(2,3)]
  by simp

lemma sendFile_sent:
  assumes "fst (sendFile (Some ch) (Some f)) = Completed"
  shows "sent (snd (sendFile (Some ch) (Some f))) =
      StringData (FileStart (file_name f)
         (if file_type f = [] then ''application/octet-stream'' else file_type f)
         (total_chunks (length (file_bytes f))) (length (file_bytes f)))
      # map (\<lambda>i. BinaryData (slice (file_bytes f) (i * CHUNK_SIZE)
                 (min (i * CHUNK_SIZE + CHUNK_SIZE) (length (file_bytes f)))))
          [0..<total_chunks (length (file_bytes f))]
      @ [StringData FileEnd]"
proof -
  have op: "readyState ch = Open"
  proof (rule ccontr)
    assume "readyState ch \<noteq> Open"
    then have "\<exists>e. sendFile (Some ch) (Some f) = (Rejected, [SetError e])"
      by (intro sendFile_rejects) auto
    with assms show False by auto
  qed
  from assms have r0: "send_returns ch 0"
    unfolding sendFile_open [OF op] by (auto split: if_splits)
  from assms r0 have
    sc: "fst (send_chunks ch (file_bytes f) (total_chunks (length (file_bytes f)))
                 [0..<total_chunks (length (file_bytes f))] 0) = Completed"
    and r1: "send_returns ch (total_chunks (length (file_bytes f)) + 1)"
    unfolding sendFile_open [OF op] by (auto split: if_splits)
  from r0 sc r1 show ?thesis
    unfolding sendFile_open [OF op]
    by (simp add: sent_append send_chunks_sent [OF sc])
qed

lemma App_send_chunks_sent:
  "sent (App_send_chunks buf n is) =
     map (\<lambda>i. FileChunk i (slice buf (i * CHUNK_SIZE)
                  (min (i * CHUNK_SIZE + CHUNK_SIZE) (length buf)))) is"
  by (induction "is") (simp_all add: Let_def sent_append)

lemma App_sendFile_sent:
  "sent (snd (App_sendFile (Some conn) (Some f))) =
      FileStart (file_name f) (file_type f)
         (total_chunks (length (file_bytes f))) (length (file_bytes f))
      # map (\<lambda>i. FileChunk i (slice (file_bytes f) (i * CHUNK_SIZE)
                 (min (i * CHUNK_SIZE + CHUNK_SIZE) (length (file_bytes f)))))
          [0..<total_chunks (length (file_bytes f))]
      @ [FileEnd]"
  by (simp add: App_sendFile_def Let_def sent_append App_send_chunks_sent)

lemma sendFile_clear_small:
  "sendFile (Some clear_channel) (Some small_file) =
     (Completed,
       [SetUploadProgress (Const 0), SetTransferStatus ''Sending: a.txt'',
        Send (StringData (FileStart ''a.txt'' ''text/plain'' 1 3)),
        ReadBufferedAmount 0, Send (BinaryData [1, 2, 3]),
        SetUploadProgress (RoundPct 1 1),
        Send (StringData FileEnd), ResetLater 1000, ClearSelectedFile])"
  by (simp add: sendFile_def clear_channel_def small_file_def total_chunks_div Let_def
      wait_drain.simps polls_def slice_def CHUNK_SIZE_def)



text \<open>
  Claim C8. A call of \<open>sendFile\<close> on an open channel that stays open and whose gauge
  keeps coming back to the mark or below completes, and a call that completes has put
  on the channel, in this order, the start message, one chunk for each index below
  \<open>totalChunks\<close> (chunk \<open>i\<close> being the bytes from \<open>i * CHUNK_SIZE\<close> up to
  \<open>min ((i + 1) * CHUNK_SIZE) totalSize\<close>), and the end message, and nothing else.
  \<open>App.sendFile\<close> always completes and sends the same sequence, each chunk tagged with
  its index. A file of 200,000 bytes makes four chunks.
\<close>

theorem send_order:
  "(readyState channel = Open \<and> (\<forall>i. send_returns channel i)
      \<and> (\<forall>k. \<exists>j\<ge>k. bufferedAmount channel j \<le> CHUNK_SIZE * 4)
     \<longrightarrow> fst (sendFile (Some channel) (Some file)) = Completed)
   \<and> (fst (sendFile (Some channel) (Some file)) = Completed \<longrightarrow>
      sent (snd (sendFile (Some channel) (Some file))) =
        StringData (FileStart (file_name file)
           (if file_type file = [] then ''application/octet-stream'' else file_type file)
           (total_chunks (length (file_bytes file))) (length (file_bytes file)))
        # map (\<lambda>i. BinaryData (slice (file_bytes file) (i * CHUNK_SIZE)
                   (min (i * CHUNK_SIZE + CHUNK_SIZE) (length (file_bytes file)))))
            [0..<total_chunks (length (file_bytes file))]
        @ [StringData FileEnd])
   \<and> App_sendFile (Some conn) (Some file) =
        (Completed, snd (App_sendFile (Some conn) (Some file)))
   \<and> sent (snd (App_sendFile (Some conn) (Some file))) =
      FileStart (file_name file) (file_type file)
         (total_chunks (length (file_bytes file))) (length (file_bytes file))
      # map (\<lambda>i. FileChunk i (slice (file_bytes file) (i * CHUNK_SIZE)
                 (min (i * CHUNK_SIZE + CHUNK_SIZE) (length (file_bytes file)))))
          [0..<total_chunks (length (file_bytes file))]
      @ [FileEnd]
   \<and> total_chunks 200000 = 4"
proof (intro conjI impI)
  assume "readyState channel = Open \<and> (\<forall>i. send_returns channel i)
      \<and> (\<forall>k. \<exists>j\<ge>k. bufferedAmount channel j \<le> CHUNK_SIZE * 4)"
  then show "fst (sendFile (Some channel) (Some file)) = Completed"
    by (intro sendFile_completes) auto
next
  assume "fst (sendFile (Some channel) (Some file)) = Completed"
  then show "sent (snd (sendFile (Some channel) (Some file))) =
        StringData (FileStart (file_name file)
           (if file_type file = [] then ''application/octet-stream'' else file_type file)
           (total_chunks (length (file_bytes file))) (length (file_bytes file)))
        # map (\<lambda>i. BinaryData (slice (file_bytes file) (i * CHUNK_SIZE)
                   (min (i * CHUNK_SIZE + CHUNK_SIZE) (length (file_bytes file)))))
            [0..<total_chunks (length (file_bytes file))]
        @ [StringData FileEnd]"
    by (rule sendFile_sent)
next
  show "App_sendFile (Some conn) (Some file) =
        (Completed, snd (App_sendFile (Some conn) (Some file)))"
    by (simp add: App_sendFile_def Let_def)
next
  show "sent (snd (App_sendFile (Some conn) (Some file))) =
      FileStart (file_name file) (file_type file)
         (total_chunks (length (file_bytes file))) (length (file_bytes file))
      # map (\<lambda>i. FileChunk i (slice (file_bytes file) (i * CHUNK_SIZE)
                 (min (i * CHUNK_SIZE + CHUNK_SIZE) (length (file_bytes file)))))
          [0..<total_chunks (length (file_bytes file))]
      @ [FileEnd]"
    by (rule App_sendFile_sent)
next
  show "total_chunks 200000 = 4"
    by (simp add: total_chunks_div)
qed

text \<open>
  The witness: the file of 200,000 bytes on a channel that never has a backlog. The
  call completes; it has sent the start message, three chunks of 65,536 bytes, one of
  3,392 bytes and the end message.
\<close>

theorem send_order_witness:
  "fst (sendFile (Some clear_channel) (Some four_chunk_file)) = Completed
   \<and> sent (snd (sendFile (Some clear_channel) (Some four_chunk_file))) =
       [StringData (FileStart ''c.bin'' ''Text/Plain'' 4 200000),
        BinaryData (replicate 65536 0), BinaryData (replicate 65536 0),
        BinaryData (replicate 65536 0), BinaryData (replicate 3392 0),
        StringData FileEnd]
   \<and> sent (snd (App_sendFile (Some \<lparr>conn_open = True, conn_peer = ''peer''\<rparr>)
                  (Some four_chunk_file))) =
       [FileStart ''c.bin'' ''Text/Plain'' 4 200000,
        FileChunk 0 (replicate 65536 0), FileChunk 1 (replicate 65536 0),
        FileChunk 2 (replicate 65536 0), FileChunk 3 (replicate 3392 0),
        FileEnd]"
proof -
  note inst = send_order [of clear_channel four_chunk_file
      "\<lparr>conn_open = True, conn_peer = ''peer''\<rparr>"]
  have h: "readyState clear_channel = Open \<and> (\<forall>i. send_returns clear_channel i)
      \<and> (\<forall>k. \<exists>j\<ge>k. bufferedAmount clear_channel j \<le> CHUNK_SIZE * 4)"
    by (auto simp: clear_channel_def)
  have a: "fst (sendFile (Some clear_channel) (Some four_chunk_file)) = Completed"
    using inst h by (rule conjunct1 [THEN mp])
  have four: "[0..<4] = [0, 1, 2, 3]"
    by (simp add: upt_rec)
  have b: "sent (snd (sendFile (Some clear_channel) (Some four_chunk_file))) =
       [StringData (FileStart ''c.bin'' ''Text/Plain'' 4 200000),
        BinaryData (replicate 65536 0), BinaryData (replicate 65536 0),
        BinaryData (replicate 65536 0), BinaryData (replicate 3392 0),
        StringData FileEnd]"
    by (subst inst [THEN conjunct2, THEN conjunct1, rule_format, OF a])
       (simp add: four_chunk_file_def total_chunks_div four slice_def CHUNK_SIZE_def)
  have c: "sent (snd (App_sendFile (Some \<lparr>conn_open = True, conn_peer = ''peer''\<rparr>)
                  (Some four_chunk_file))) =
       [FileStart ''c.bin'' ''Text/Plain'' 4 200000,
        FileChunk 0 (replicate 65536 0), FileChunk 1 (replicate 65536 0),
        FileChunk 2 (replicate 65536 0), FileChunk 3 (replicate 3392 0),
        FileEnd]"
    by (subst inst [THEN conjunct2, THEN conjunct2, THEN conjunct2, THEN conjunct1])
       (simp add: four_chunk_file_def total_chunks_div four slice_def CHUNK_SIZE_def)
  show ?thesis
    by (intro conjI) (rule a, rule b, rule c)
qed

subsection \<open>Backpressure\<close>









subsection \<open>Receivers: whole transfers\<close>

subsection \<open>Cutting a buffer into chunks\<close>

lemma slice_chunk:
  "slice xs (i * C) (min (i * C + C) (length xs)) = take C (drop (i * C) xs)"
proof (cases "i * C \<le> length xs")
  case True
  then show ?thesis
    by (simp add: slice_def Let_def min_def)
next
  case False
  then show ?thesis
    by (simp add: slice_def Let_def min_def)
qed

lemma concat_take_drop:
  "concat (map (\<lambda>i. take C (drop (i * C) xs)) [0..<k]) = take (k * C) xs"
proof (induction k)
  case 0
  show ?case by simp
next
  case (Suc k)
  have "take (k * C + C) xs = take (k * C) xs @ take C (drop (k * C) xs)"
    by (rule take_add)
  with Suc show ?case by (simp add: add.commute)
qed

lemma chunks_concat:
  "concat (map (\<lambda>i. slice xs (i * CHUNK_SIZE) (min (i * CHUNK_SIZE + CHUNK_SIZE) (length xs)))
      [0..<total_chunks (length xs)]) = xs"
  by (simp add: slice_chunk concat_take_drop total_chunks_covers)

lemma take_drop_range:
  "take n (drop m xs) = map (nth xs) [m..<min (m + n) (length xs)]"
proof (rule nth_equalityI)
  show "length (take n (drop m xs)) = length (map (nth xs) [m..<min (m + n) (length xs)])"
    by (auto simp: min_def)
next
  fix j assume "j < length (take n (drop m xs))"
  then have "j < n" and "m + j < length xs" by auto
  then show "take n (drop m xs) ! j = map (nth xs) [m..<min (m + n) (length xs)] ! j"
    by simp
qed

lemma slice_range:
  "slice buf (i * CHUNK_SIZE) (min (i * CHUNK_SIZE + CHUNK_SIZE) (length buf)) =
     map (nth buf) [i * CHUNK_SIZE..<min (i * CHUNK_SIZE + CHUNK_SIZE) (length buf)]"
proof -
  have "slice buf (i * CHUNK_SIZE) (min (i * CHUNK_SIZE + CHUNK_SIZE) (length buf)) =
      take CHUNK_SIZE (drop (i * CHUNK_SIZE) buf)"
    by (rule slice_chunk)
  also have "\<dots> = map (nth buf) [i * CHUNK_SIZE..<min (i * CHUNK_SIZE + CHUNK_SIZE) (length buf)]"
    by (rule take_drop_range)
  finally show ?thesis .
qed

subsection \<open>Filling a buffer in arrival order\<close>

lemma array_set_next:
  "array_set (map Some pre @ replicate k None) (length pre) d
     = map Some (pre @ [d]) @ replicate (k - 1) None"
  by (cases k) (simp_all add: array_set_def list_update_append)

lemma handleChunkData_next:
  assumes "incomingTransferRef r = Some t"
    and "chunks t = map Some pre @ replicate k None"
    and "receivedCount t = length pre"
  shows "handleChunkData d r =
     r\<lparr>incomingTransferRef :=
         Some (t\<lparr>chunks := map Some (pre @ [d]) @ replicate (k - 1) None,
                 receivedCount := length pre + 1\<rparr>),
       downloadProgress := RoundPct (length pre + 1) (totalChunks t)\<rparr>"
  using assms array_set_next [of pre k d] by (simp add: handleChunkData_def)

lemma receive_append: "receive (xs @ ys) r = receive ys (receive xs r)"
  by (induction xs arbitrary: r) auto

lemma App_receive_append: "App_receive (xs @ ys) r = App_receive ys (App_receive xs r)"
  by (induction xs arbitrary: r) auto

lemma receive_chunks:
  assumes "map snd evs = map BinaryData ds"
    and "incomingTransferRef r = Some t"
    and "chunks t = map Some pre @ replicate k None"
    and "receivedCount t = length pre"
  shows "incomingTransferRef (receive evs r) =
           Some (t\<lparr>chunks := map Some (pre @ ds) @ replicate (k - length ds) None,
                   receivedCount := length pre + length ds\<rparr>)
       \<and> receivedFiles (receive evs r) = receivedFiles r"
  using assms
proof (induction evs arbitrary: ds r t pre k)
  case Nil
  then show ?case by simp
next
  case (Cons e evs)
  obtain now ev where e: "e = (now, ev)" by (cases e)
  from Cons.prems(1) e obtain d ds' where ds: "ds = d # ds'" and ev: "ev = BinaryData d"
    and rest: "map snd evs = map BinaryData ds'"
    by (cases ds) auto
  let ?t' = "t\<lparr>chunks := map Some (pre @ [d]) @ replicate (k - 1) None,
                 receivedCount := length pre + 1\<rparr>"
  let ?r' = "handleChunkData d r"
  have step: "?r' = r\<lparr>incomingTransferRef := Some ?t',
       downloadProgress := RoundPct (length pre + 1) (totalChunks t)\<rparr>"
    using Cons.prems(2-4) by (rule handleChunkData_next)
  have "incomingTransferRef (receive evs ?r') =
           Some (?t'\<lparr>chunks := map Some ((pre @ [d]) @ ds') @ replicate (k - 1 - length ds') None,
                   receivedCount := length (pre @ [d]) + length ds'\<rparr>)
       \<and> receivedFiles (receive evs ?r') = receivedFiles ?r'"
    by (rule Cons.IH [OF rest]) (simp_all add: step)
  then show ?case
    by (simp add: e ev ds onmessage_binary step)
qed

lemma framed_events:
  assumes "map snd evs = a # bs @ [c]"
  obtains t0 mid tN where "evs = (t0, a) # mid @ [(tN, c)]" and "map snd mid = bs"
proof -
  from assms obtain e0 rest where evs: "evs = e0 # rest" and a: "snd e0 = a"
    and rest: "map snd rest = bs @ [c]"
    by (auto simp: map_eq_Cons_conv)
  from rest obtain mid lst where r: "rest = mid @ lst" and mid: "map snd mid = bs"
    and lst: "map snd lst = [c]"
    by (auto simp: map_eq_append_conv)
  from lst obtain eN where l: "lst = [eN]" and c: "snd eN = c"
    by (auto simp: map_eq_Cons_conv)
  have "evs = (fst e0, a) # mid @ [(fst eN, c)]"
    using evs r l a c by (cases e0; cases eN) simp
  then show ?thesis using mid by (rule that)
qed

text \<open>
  A whole transfer on the manual receiver: a start message, any number of binary
  frames, an end message.
\<close>

lemma receive_transfer:
  assumes "map snd evs =
      StringData (FileStart n ft tc ts) # map BinaryData ds @ [StringData FileEnd]"
    and "tc < 2 ^ 32"
  shows "receive evs r =
     \<lparr>incomingTransferRef = None,
      receivedFiles = receivedFiles r @
        [\<lparr>rf_name = n,
          rf_data = new_Blob (map Some ds @ replicate (tc - length ds) None) ft,
          rf_timestamp = fst (last evs)\<rparr>],
      downloadProgress = Const 0, transferStatus = ''''\<rparr>"
proof -
  from assms(1) obtain t0 mid tN where
    evs: "evs = (t0, StringData (FileStart n ft tc ts)) # mid @ [(tN, StringData FileEnd)]"
    and mid: "map snd mid = map BinaryData ds"
    by (rule framed_events)
  let ?t = "\<lparr>name = n, fileType = ft, totalChunks = tc, totalSize = ts,
             chunks = replicate tc None, receivedCount = 0\<rparr>"
  let ?r1 = "onmessage t0 (StringData (FileStart n ft tc ts)) r"
  have r1: "incomingTransferRef ?r1 = Some ?t" and f1: "receivedFiles ?r1 = receivedFiles r"
    using assms(2) by (simp_all add: onmessage_start)
  have "incomingTransferRef (receive mid ?r1) =
           Some (?t\<lparr>chunks := map Some ([] @ ds) @ replicate (tc - length ds) None,
                   receivedCount := length ([] :: ArrayBuffer list) + length ds\<rparr>)
       \<and> receivedFiles (receive mid ?r1) = receivedFiles ?r1"
    by (rule receive_chunks [OF mid r1]) simp_all
  then have "onmessage tN (StringData FileEnd) (receive mid ?r1) =
     \<lparr>incomingTransferRef = None,
      receivedFiles = receivedFiles r @
        [\<lparr>rf_name = n,
          rf_data = new_Blob (map Some ds @ replicate (tc - length ds) None) ft,
          rf_timestamp = tN\<rparr>],
      downloadProgress = Const 0, transferStatus = ''''\<rparr>"
    by (simp add: onmessage_end f1)
  then show ?thesis
    by (simp add: evs receive_append)
qed

lemma new_Blob_full:
  "new_Blob (map Some ds) ft = \<lparr>blob_bytes = concat ds, blob_type = normalize_type ft\<rparr>"
  by (simp add: new_Blob_def blob_part_def comp_def)

subsection \<open>Filling a buffer by index\<close>

lemma App_onData_chunk:
  assumes "incomingTransferRef r = Some t"
  shows "App_onData now (FileChunk i d) r =
     r\<lparr>incomingTransferRef :=
         Some (t\<lparr>chunks := array_set (chunks t) i d,
                 receivedCount := receivedCount t + 1\<rparr>),
       downloadProgress := RoundPct (receivedCount t + 1) (totalChunks t)\<rparr>"
  using assms by (simp add: App_onData_chunk_step)

lemma store_simps [simp]:
  "store [] b = b"
  "store (c # cs) b = store cs (b[fst c := Some (snd c)])"
  by (simp_all add: store_def)

lemma length_store [simp]: "length (store cs b) = length b"
  by (induction cs arbitrary: b) simp_all

lemma store_nth:
  "distinct (map fst cs) \<Longrightarrow> i < length b \<Longrightarrow>
   store cs b ! i = (case map_of cs i of Some d \<Rightarrow> Some d | None \<Rightarrow> b ! i)"
proof (induction cs arbitrary: b)
  case Nil
  show ?case by simp
next
  case (Cons c cs)
  obtain j d where c: "c = (j, d)" by (cases c)
  from Cons.prems have dist: "distinct (map fst cs)" and nj: "j \<notin> fst ` set cs"
    by (simp_all add: c)
  from nj have none: "map_of cs j = None"
    by (simp add: map_of_eq_None_iff)
  have "store cs (b[j := Some d]) ! i =
      (case map_of cs i of Some d \<Rightarrow> Some d | None \<Rightarrow> b[j := Some d] ! i)"
    using dist Cons.prems(2) by (intro Cons.IH) simp_all
  then show ?case
    using none Cons.prems(2) by (auto simp: c nth_list_update split: option.splits)
qed

lemma App_receive_chunks:
  assumes "map snd evs = map (\<lambda>c. FileChunk (fst c) (snd c)) cs"
    and "incomingTransferRef r = Some t"
    and "\<forall>c\<in>set cs. fst c < length (chunks t)"
  shows "incomingTransferRef (App_receive evs r) =
           Some (t\<lparr>chunks := store cs (chunks t),
                   receivedCount := receivedCount t + length cs\<rparr>)
       \<and> receivedFiles (App_receive evs r) = receivedFiles r"
  using assms
proof (induction evs arbitrary: cs r t)
  case Nil
  then show ?case by simp
next
  case (Cons e evs)
  obtain now ev where e: "e = (now, ev)" by (cases e)
  from Cons.prems(1) e obtain c cs' where cs: "cs = c # cs'"
    and ev: "ev = FileChunk (fst c) (snd c)"
    and rest: "map snd evs = map (\<lambda>c. FileChunk (fst c) (snd c)) cs'"
    by (cases cs) auto
  from Cons.prems(3) cs have inr: "fst c < length (chunks t)" by simp
  let ?t' = "t\<lparr>chunks := (chunks t)[fst c := Some (snd c)],
                 receivedCount := receivedCount t + 1\<rparr>"
  let ?r' = "App_onData now ev r"
  have step: "?r' = r\<lparr>incomingTransferRef := Some ?t',
       downloadProgress := RoundPct (receivedCount t + 1) (totalChunks t)\<rparr>"
    using App_onData_chunk [OF Cons.prems(2), of now "fst c" "snd c"] inr
    by (simp add: ev array_set_def)
  have "incomingTransferRef (App_receive evs ?r') =
           Some (?t'\<lparr>chunks := store cs' (chunks ?t'),
                   receivedCount := receivedCount ?t' + length cs'\<rparr>)
       \<and> receivedFiles (App_receive evs ?r') = receivedFiles ?r'"
    using Cons.prems(3) by (intro Cons.IH [OF rest]) (simp_all add: step cs)
  then show ?case
    by (simp add: e cs step)
qed

lemma full_indices:
  assumes "distinct (map fst cs)" and "\<forall>c\<in>set cs. fst c < tc" and "length cs = tc"
  shows "set (map fst cs) = {..<tc}"
proof (rule card_subset_eq)
  show "finite {..<tc}" by simp
  show "set (map fst cs) \<subseteq> {..<tc}" using assms(2) by auto
  show "card (set (map fst cs)) = card {..<tc}"
    using distinct_card [OF assms(1)] assms(3) by simp
qed

lemma store_full:
  assumes "distinct (map fst cs)" and "\<forall>c\<in>set cs. fst c < tc" and "length cs = tc"
  shows "store cs (replicate tc None) = map (\<lambda>i. Some (the (map_of cs i))) [0..<tc]"
proof (rule nth_equalityI)
  show "length (store cs (replicate tc None)) = length (map (\<lambda>i. Some (the (map_of cs i))) [0..<tc])"
    by simp
next
  fix i assume "i < length (store cs (replicate tc None))"
  then have i: "i < tc" by simp
  with full_indices [OF assms] have "i \<in> fst ` set cs" by auto
  then obtain d where "map_of cs i = Some d"
    by (metis map_of_eq_None_iff not_Some_eq)
  with i store_nth [OF assms(1), of i "replicate tc None"]
  show "store cs (replicate tc None) ! i = map (\<lambda>i. Some (the (map_of cs i))) [0..<tc] ! i"
    by simp
qed

lemma payload_total:
  assumes "distinct (map fst cs)" and "\<forall>c\<in>set cs. fst c < tc" and "length cs = tc"
  shows "length (concat (map (\<lambda>i. the (map_of cs i)) [0..<tc])) =
     sum_list (map (\<lambda>c. length (snd c)) cs)"
proof -
  let ?f = "\<lambda>i. length (the (map_of cs i))"
  have "length (concat (map (\<lambda>i. the (map_of cs i)) [0..<tc])) = sum_list (map ?f [0..<tc])"
    by (simp add: length_concat comp_def)
  also have "\<dots> = sum ?f (set [0..<tc])"
    by (rule sum_list_distinct_conv_sum_set) simp
  also have "set [0..<tc] = set (map fst cs)"
    using full_indices [OF assms] by auto
  also have "sum ?f (set (map fst cs)) = sum_list (map ?f (map fst cs))"
    by (rule sum_list_distinct_conv_sum_set [symmetric]) (rule assms(1))
  also have "\<dots> = sum_list (map (\<lambda>c. length (snd c)) cs)"
  proof -
    have "?f (fst c) = length (snd c)" if "c \<in> set cs" for c
    proof -
      from that have "(fst c, snd c) \<in> set cs" by simp
      then have "map_of cs (fst c) = Some (snd c)"
        by (simp add: map_of_eq_Some_iff [OF assms(1)])
      then show ?thesis by simp
    qed
    then have "map (\<lambda>c. ?f (fst c)) cs = map (\<lambda>c. length (snd c)) cs"
      by simp
    then show ?thesis by (simp only: map_map comp_def)
  qed
  finally show ?thesis .
qed

text \<open>
  A whole transfer on the PeerJS receiver whose chunks carry each index below
  \<open>totalChunks\<close> once, in any order.
\<close>

lemma App_receive_transfer:
  assumes "map snd evs =
      FileStart n ft tc ts # map (\<lambda>c. FileChunk (fst c) (snd c)) cs @ [FileEnd]"
    and "distinct (map fst cs)" and "\<forall>c\<in>set cs. fst c < tc" and "length cs = tc"
    and "tc < 2 ^ 32"
  shows "App_receive evs r =
     \<lparr>incomingTransferRef = None,
      receivedFiles = receivedFiles r @
        [\<lparr>rf_name = n,
          rf_data = \<lparr>blob_bytes = concat (map (\<lambda>i. the (map_of cs i)) [0..<tc]),
                     blob_type = normalize_type ft\<rparr>,
          rf_timestamp = fst (last evs)\<rparr>],
      downloadProgress = Const 0, transferStatus = ''''\<rparr>"
proof -
  from assms(1) obtain t0 mid tN where
    evs: "evs = (t0, FileStart n ft tc ts) # mid @ [(tN, FileEnd)]"
    and mid: "map snd mid = map (\<lambda>c. FileChunk (fst c) (snd c)) cs"
    by (rule framed_events)
  let ?t = "\<lparr>name = n, fileType = ft, totalChunks = tc, totalSize = ts,
             chunks = replicate tc None, receivedCount = 0\<rparr>"
  let ?r1 = "App_onData t0 (FileStart n ft tc ts) r"
  have r1: "incomingTransferRef ?r1 = Some ?t" and f1: "receivedFiles ?r1 = receivedFiles r"
    using assms(5) by (simp_all add: App_onData_start)
  have "incomingTransferRef (App_receive mid ?r1) =
           Some (?t\<lparr>chunks := store cs (chunks ?t),
                   receivedCount := receivedCount ?t + length cs\<rparr>)
       \<and> receivedFiles (App_receive mid ?r1) = receivedFiles ?r1"
    using assms(3) by (intro App_receive_chunks [OF mid r1]) simp
  moreover have "new_Blob (store cs (replicate tc None)) ft =
      \<lparr>blob_bytes = concat (map (\<lambda>i. the (map_of cs i)) [0..<tc]),
       blob_type = normalize_type ft\<rparr>"
    by (simp add: store_full [OF assms(2-4)] new_Blob_def blob_part_def comp_def)
  ultimately have "App_onData tN FileEnd (App_receive mid ?r1) =
     \<lparr>incomingTransferRef = None,
      receivedFiles = receivedFiles r @
        [\<lparr>rf_name = n,
          rf_data = \<lparr>blob_bytes = concat (map (\<lambda>i. the (map_of cs i)) [0..<tc]),
                     blob_type = normalize_type ft\<rparr>,
          rf_timestamp = tN\<rparr>],
      downloadProgress = Const 0, transferStatus = ''''\<rparr>"
    by (simp add: App_onData_end f1)
  then show ?thesis
    by (simp add: evs App_receive_append)
qed

lemma map_of_tagged:
  "i \<in> set xs \<Longrightarrow> map_of (map (\<lambda>k. (k, f k)) xs) i = Some (f i)"
  by (induction xs) auto

lemma sendFile_clear_empty:
  "sendFile (Some clear_channel) (Some empty_file) =
     (Completed,
       [SetUploadProgress (Const 0), SetTransferStatus ''Sending: e'',
        Send (StringData (FileStart ''e'' ''application/octet-stream'' 0 0)),
        Send (StringData FileEnd), ResetLater 1000, ClearSelectedFile])"
  by (simp add: sendFile_def clear_channel_def empty_file_def total_chunks_div Let_def)

lemma sendFile_clear_two_chunks:
  "sendFile (Some clear_channel) (Some two_chunk_file) =
     (Completed,
       [SetUploadProgress (Const 0), SetTransferStatus ''Sending: b.bin'',
        Send (StringData (FileStart ''b.bin'' ''application/octet-stream'' 2 70000)),
        ReadBufferedAmount 0, Send (BinaryData (replicate 65536 0)),
        SetUploadProgress (RoundPct 1 2),
        ReadBufferedAmount 0, Send (BinaryData (replicate 4464 0)),
        SetUploadProgress (RoundPct 2 2),
        Send (StringData FileEnd), ResetLater 1000, ClearSelectedFile])"
  by (simp add: sendFile_def clear_channel_def two_chunk_file_def total_chunks_div Let_def
      wait_drain.simps polls_def slice_def CHUNK_SIZE_def upt_rec)

lemma normalize_type_octet_stream:
  "normalize_type ''application/octet-stream'' = ''application/octet-stream''"
  by (simp add: normalize_type_def ascii_lower_def)

text \<open>
  Claim C1. Chunk \<open>i\<close> of a file is its bytes from \<open>i * CHUNK_SIZE\<close> up to
  \<open>min (i * CHUNK_SIZE + CHUNK_SIZE) totalSize\<close>, and the chunks of a file, concatenated in
  index order, are the file. A call of \<open>sendFile\<close> on an open channel that stays open and
  whose gauge keeps coming back to the mark or below completes. What a completed
  \<open>sendFile\<close> puts on the channel, delivered in that order to a receiver in any state,
  makes the receiver append exactly one file whose bytes are the bytes of the file sent
  and return to idle; the same holds for \<open>App.sendFile\<close> and the PeerJS receiver. The
  empty file is the case of a start message followed at once by the end message: the
  file received is empty. (The receivers take a chunk count that is an array length,
  that is below \<open>2^32\<close>: a file of less than \<open>2^48 - 65535\<close> bytes.)
\<close>

theorem transfer_round_trip:
  "slice (file_bytes file) (i * CHUNK_SIZE)
       (min (i * CHUNK_SIZE + CHUNK_SIZE) (length (file_bytes file))) =
     map (nth (file_bytes file))
       [i * CHUNK_SIZE..<min (i * CHUNK_SIZE + CHUNK_SIZE) (length (file_bytes file))]
   \<and> concat (map (\<lambda>i. slice (file_bytes file) (i * CHUNK_SIZE)
                (min (i * CHUNK_SIZE + CHUNK_SIZE) (length (file_bytes file))))
        [0..<total_chunks (length (file_bytes file))]) = file_bytes file
   \<and> (readyState channel = Open \<and> (\<forall>i. send_returns channel i)
        \<and> (\<forall>k. \<exists>j\<ge>k. bufferedAmount channel j \<le> CHUNK_SIZE * 4)
       \<longrightarrow> fst (sendFile (Some channel) (Some file)) = Completed)
   \<and> (fst (sendFile (Some channel) (Some file)) = Completed
        \<and> total_chunks (length (file_bytes file)) < 2 ^ 32
        \<and> map snd evs = sent (snd (sendFile (Some channel) (Some file))) \<longrightarrow>
      receive evs r =
        \<lparr>incomingTransferRef = None,
         receivedFiles = receivedFiles r @
           [\<lparr>rf_name = file_name file,
             rf_data = \<lparr>blob_bytes = file_bytes file,
                        blob_type = normalize_type
                          (if file_type file = [] then ''application/octet-stream''
                           else file_type file)\<rparr>,
             rf_timestamp = fst (last evs)\<rparr>],
         downloadProgress = Const 0, transferStatus = ''''\<rparr>)
   \<and> (total_chunks (length (file_bytes file)) < 2 ^ 32
        \<and> map snd evs' = sent (snd (App_sendFile (Some conn) (Some file))) \<longrightarrow>
      App_receive evs' r' =
        \<lparr>incomingTransferRef = None,
         receivedFiles = receivedFiles r' @
           [\<lparr>rf_name = file_name file,
             rf_data = \<lparr>blob_bytes = file_bytes file,
                        blob_type = normalize_type (file_type file)\<rparr>,
             rf_timestamp = fst (last evs')\<rparr>],
         downloadProgress = Const 0, transferStatus = ''''\<rparr>)"
proof (intro conjI impI)
  let ?buf = "file_bytes file"
  let ?n = "total_chunks (length ?buf)"
  let ?cut = "\<lambda>i. slice ?buf (i * CHUNK_SIZE) (min (i * CHUNK_SIZE + CHUNK_SIZE) (length ?buf))"
  show "?cut i =
     map (nth ?buf) [i * CHUNK_SIZE..<min (i * CHUNK_SIZE + CHUNK_SIZE) (length ?buf)]"
    by (rule slice_range)
  show "concat (map ?cut [0..<?n]) = ?buf"
    by (rule chunks_concat)
  {
    assume "readyState channel = Open \<and> (\<forall>i. send_returns channel i)
        \<and> (\<forall>k. \<exists>j\<ge>k. bufferedAmount channel j \<le> CHUNK_SIZE * 4)"
    then show "fst (sendFile (Some channel) (Some file)) = Completed"
      by (intro sendFile_completes) auto
  }
  {
    assume "fst (sendFile (Some channel) (Some file)) = Completed
        \<and> ?n < 2 ^ 32
        \<and> map snd evs = sent (snd (sendFile (Some channel) (Some file)))"
    then have run: "fst (sendFile (Some channel) (Some file)) = Completed"
      and small: "?n < 2 ^ 32"
      and evs: "map snd evs = sent (snd (sendFile (Some channel) (Some file)))" by auto
    let ?ft = "if file_type file = [] then ''application/octet-stream'' else file_type file"
    have "map snd evs = StringData (FileStart (file_name file) ?ft ?n (length ?buf))
        # map BinaryData (map ?cut [0..<?n]) @ [StringData FileEnd]"
      using sendFile_sent [OF run] evs by (simp add: comp_def)
    from receive_transfer [OF this small, of r]
    show "receive evs r =
        \<lparr>incomingTransferRef = None,
         receivedFiles = receivedFiles r @
           [\<lparr>rf_name = file_name file,
             rf_data = \<lparr>blob_bytes = file_bytes file, blob_type = normalize_type ?ft\<rparr>,
             rf_timestamp = fst (last evs)\<rparr>],
         downloadProgress = Const 0, transferStatus = ''''\<rparr>"
      by (simp add: new_Blob_full chunks_concat del: map_map)
  }
  {
    assume "?n < 2 ^ 32
        \<and> map snd evs' = sent (snd (App_sendFile (Some conn) (Some file)))"
    then have small: "?n < 2 ^ 32"
      and evs: "map snd evs' = sent (snd (App_sendFile (Some conn) (Some file)))" by auto
    let ?cs = "map (\<lambda>i. (i, ?cut i)) [0..<?n]"
    have m: "map snd evs' = FileStart (file_name file) (file_type file) ?n (length ?buf)
        # map (\<lambda>c. FileChunk (fst c) (snd c)) ?cs @ [FileEnd]"
      using App_sendFile_sent [of conn "file"] evs by (simp add: comp_def)
    have d: "distinct (map fst ?cs)" by (simp add: comp_def)
    have b: "\<forall>c\<in>set ?cs. fst c < ?n" by auto
    have l: "length ?cs = ?n" by simp
    have "map (\<lambda>i. the (map_of ?cs i)) [0..<?n] = map ?cut [0..<?n]"
      by (rule map_cong) (simp_all add: map_of_tagged)
    then have "concat (map (\<lambda>i. the (map_of ?cs i)) [0..<?n]) = ?buf"
      by (simp only: chunks_concat)
    with App_receive_transfer [OF m d b l small, of r']
    show "App_receive evs' r' =
        \<lparr>incomingTransferRef = None,
         receivedFiles = receivedFiles r' @
           [\<lparr>rf_name = file_name file,
             rf_data = \<lparr>blob_bytes = file_bytes file,
                        blob_type = normalize_type (file_type file)\<rparr>,
             rf_timestamp = fst (last evs')\<rparr>],
         downloadProgress = Const 0, transferStatus = ''''\<rparr>"
      by simp
  }
qed

text \<open>
  The witness: the file of two chunks and the empty file, sent on a channel that never
  has a backlog and received by the manual receiver; the three-byte file, sent by
  \<open>App.sendFile\<close> and received by the PeerJS receiver.
\<close>

theorem transfer_round_trip_witness:
  "fst (sendFile (Some clear_channel) (Some two_chunk_file)) = Completed
   \<and> sent (snd (sendFile (Some clear_channel) (Some two_chunk_file))) =
       [StringData (FileStart ''b.bin'' ''application/octet-stream'' 2 70000),
        BinaryData (replicate 65536 0), BinaryData (replicate 4464 0),
        StringData FileEnd]
   \<and> receive
        [(1, StringData (FileStart ''b.bin'' ''application/octet-stream'' 2 70000)),
         (2, BinaryData (replicate 65536 0)), (3, BinaryData (replicate 4464 0)),
         (4, StringData FileEnd)] initial =
       \<lparr>incomingTransferRef = None,
        receivedFiles =
          [\<lparr>rf_name = ''b.bin'',
            rf_data = \<lparr>blob_bytes = replicate 70000 0,
                       blob_type = ''application/octet-stream''\<rparr>,
            rf_timestamp = 4\<rparr>],
        downloadProgress = Const 0, transferStatus = ''''\<rparr>
   \<and> sent (snd (sendFile (Some clear_channel) (Some empty_file))) =
       [StringData (FileStart ''e'' ''application/octet-stream'' 0 0), StringData FileEnd]
   \<and> receive
        [(1, StringData (FileStart ''e'' ''application/octet-stream'' 0 0)),
         (2, StringData FileEnd)] initial =
       \<lparr>incomingTransferRef = None,
        receivedFiles =
          [\<lparr>rf_name = ''e'',
            rf_data = \<lparr>blob_bytes = [], blob_type = ''application/octet-stream''\<rparr>,
            rf_timestamp = 2\<rparr>],
        downloadProgress = Const 0, transferStatus = ''''\<rparr>
   \<and> App_receive
        [(1, FileStart ''a.txt'' ''text/plain'' 1 3), (2, FileChunk 0 [1, 2, 3]),
         (3, FileEnd)] initial =
       \<lparr>incomingTransferRef = None,
        receivedFiles =
          [\<lparr>rf_name = ''a.txt'',
            rf_data = \<lparr>blob_bytes = [1, 2, 3], blob_type = ''text/plain''\<rparr>,
            rf_timestamp = 3\<rparr>],
        downloadProgress = Const 0, transferStatus = ''''\<rparr>"
proof -
  have h: "readyState clear_channel = Open \<and> (\<forall>i. send_returns clear_channel i)
      \<and> (\<forall>k. \<exists>j\<ge>k. bufferedAmount clear_channel j \<le> CHUNK_SIZE * 4)"
    by (auto simp: clear_channel_def)
  have run2: "fst (sendFile (Some clear_channel) (Some two_chunk_file)) = Completed"
    using transfer_round_trip [of two_chunk_file _ clear_channel] h
    by (rule conjunct2 [THEN conjunct2, THEN conjunct1, THEN mp])
  have run0: "fst (sendFile (Some clear_channel) (Some empty_file)) = Completed"
    using transfer_round_trip [of empty_file _ clear_channel] h
    by (rule conjunct2 [THEN conjunct2, THEN conjunct1, THEN mp])
  have s2: "sent (snd (sendFile (Some clear_channel) (Some two_chunk_file))) =
       [StringData (FileStart ''b.bin'' ''application/octet-stream'' 2 70000),
        BinaryData (replicate 65536 0), BinaryData (replicate 4464 0),
        StringData FileEnd]"
    by (simp add: sendFile_clear_two_chunks)
  have s0: "sent (snd (sendFile (Some clear_channel) (Some empty_file))) =
       [StringData (FileStart ''e'' ''application/octet-stream'' 0 0), StringData FileEnd]"
    by (simp add: sendFile_clear_empty)
  have n2: "total_chunks (length (file_bytes two_chunk_file)) < 2 ^ 32"
    by (simp add: two_chunk_file_def total_chunks_div)
  have n0: "total_chunks (length (file_bytes empty_file)) < 2 ^ 32"
    by (simp add: empty_file_def total_chunks_div)
  have n1: "total_chunks (length (file_bytes small_file)) < 2 ^ 32"
    by (simp add: small_file_def total_chunks_div)
  have e2: "map snd
        [(1::nat, StringData (FileStart ''b.bin'' ''application/octet-stream'' 2 70000)),
         (2, BinaryData (replicate 65536 0)), (3, BinaryData (replicate 4464 0)),
         (4, StringData FileEnd)] =
      sent (snd (sendFile (Some clear_channel) (Some two_chunk_file)))"
    by (simp add: s2)
  have e0: "map snd
        [(1::nat, StringData (FileStart ''e'' ''application/octet-stream'' 0 0)),
         (2, StringData FileEnd)] =
      sent (snd (sendFile (Some clear_channel) (Some empty_file)))"
    by (simp add: s0)
  have e1: "map snd
        [(1::nat, FileStart ''a.txt'' ''text/plain'' 1 3), (2, FileChunk 0 [1, 2, 3]),
         (3, FileEnd)] =
      sent (snd (App_sendFile (Some \<lparr>conn_open = True, conn_peer = ''peer''\<rparr>)
        (Some small_file)))"
    by (simp add: App_sendFile_def small_file_def total_chunks_div slice_def CHUNK_SIZE_def)
  note a = transfer_round_trip [THEN conjunct2, THEN conjunct2, THEN conjunct2,
      THEN conjunct1, rule_format, OF conjI [OF run2 conjI [OF n2 e2]], of initial]
  note b = transfer_round_trip [THEN conjunct2, THEN conjunct2, THEN conjunct2,
      THEN conjunct1, rule_format, OF conjI [OF run0 conjI [OF n0 e0]], of initial]
  note c = transfer_round_trip [THEN conjunct2, THEN conjunct2, THEN conjunct2,
      THEN conjunct2, rule_format, OF conjI [OF n1 e1], of initial]
  from a have a': "receive
        [(1, StringData (FileStart ''b.bin'' ''application/octet-stream'' 2 70000)),
         (2, BinaryData (replicate 65536 0)), (3, BinaryData (replicate 4464 0)),
         (4, StringData FileEnd)] initial =
       \<lparr>incomingTransferRef = None,
        receivedFiles =
          [\<lparr>rf_name = ''b.bin'',
            rf_data = \<lparr>blob_bytes = replicate 70000 0,
                       blob_type = ''application/octet-stream''\<rparr>,
            rf_timestamp = 4\<rparr>],
        downloadProgress = Const 0, transferStatus = ''''\<rparr>"
    by (simp add: two_chunk_file_def initial_def normalize_type_octet_stream)
  from b have b': "receive
        [(1, StringData (FileStart ''e'' ''application/octet-stream'' 0 0)),
         (2, StringData FileEnd)] initial =
       \<lparr>incomingTransferRef = None,
        receivedFiles =
          [\<lparr>rf_name = ''e'',
            rf_data = \<lparr>blob_bytes = [], blob_type = ''application/octet-stream''\<rparr>,
            rf_timestamp = 2\<rparr>],
        downloadProgress = Const 0, transferStatus = ''''\<rparr>"
    by (simp add: empty_file_def initial_def normalize_type_octet_stream)
  from c have c': "App_receive
        [(1, FileStart ''a.txt'' ''text/plain'' 1 3), (2, FileChunk 0 [1, 2, 3]),
         (3, FileEnd)] initial =
       \<lparr>incomingTransferRef = None,
        receivedFiles =
          [\<lparr>rf_name = ''a.txt'',
            rf_data = \<lparr>blob_bytes = [1, 2, 3], blob_type = ''text/plain''\<rparr>,
            rf_timestamp = 3\<rparr>],
        downloadProgress = Const 0, transferStatus = ''''\<rparr>"
    by (simp add: small_file_def initial_def normalize_type_def ascii_lower_def)
  show ?thesis
    by (intro conjI) (rule run2, rule s2, rule a', rule s0, rule b', rule c')
qed

subsection \<open>The state an end message finds\<close>

lemma butlast_framed:
  assumes "map f evs = a # bs @ [c]"
  shows "map f (butlast evs) = a # bs"
proof -
  have "map f (butlast evs) = butlast (map f evs)"
    by (simp add: map_butlast)
  also have "\<dots> = butlast ((a # bs) @ [c])"
    using assms by simp
  also have "\<dots> = a # bs"
    by (rule butlast_snoc)
  finally show ?thesis .
qed

lemma receive_started:
  assumes "map snd evs = StringData (FileStart n ft tc ts) # map BinaryData ds"
    and "tc < 2 ^ 32"
  shows "incomingTransferRef (receive evs r) =
     Some \<lparr>name = n, fileType = ft, totalChunks = tc, totalSize = ts,
           chunks = map Some ds @ replicate (tc - length ds) None,
           receivedCount = length ds\<rparr>"
proof -
  from assms(1) obtain e0 mid where evs: "evs = e0 # mid"
    and e0: "snd e0 = StringData (FileStart n ft tc ts)"
    and mid: "map snd mid = map BinaryData ds"
    by (auto simp: map_eq_Cons_conv)
  let ?t = "\<lparr>name = n, fileType = ft, totalChunks = tc, totalSize = ts,
             chunks = replicate tc None, receivedCount = 0\<rparr>"
  let ?r1 = "onmessage (fst e0) (StringData (FileStart n ft tc ts)) r"
  have r1: "incomingTransferRef ?r1 = Some ?t"
    using assms(2) by (simp add: onmessage_start)
  have "incomingTransferRef (receive mid ?r1) =
           Some (?t\<lparr>chunks := map Some ([] @ ds) @ replicate (tc - length ds) None,
                   receivedCount := length ([] :: ArrayBuffer list) + length ds\<rparr>)
       \<and> receivedFiles (receive mid ?r1) = receivedFiles ?r1"
    by (rule receive_chunks [OF mid r1]) simp_all
  moreover have "receive evs r = receive mid ?r1"
    using e0 by (cases e0) (simp add: evs)
  ultimately show ?thesis by simp
qed

lemma App_receive_started:
  assumes "map snd evs = FileStart n ft tc ts # map (\<lambda>c. FileChunk (fst c) (snd c)) cs"
    and "\<forall>c\<in>set cs. fst c < tc" and "tc < 2 ^ 32"
  shows "incomingTransferRef (App_receive evs r) =
     Some \<lparr>name = n, fileType = ft, totalChunks = tc, totalSize = ts,
           chunks = store cs (replicate tc None),
           receivedCount = length cs\<rparr>"
proof -
  from assms(1) obtain e0 mid where evs: "evs = e0 # mid"
    and e0: "snd e0 = FileStart n ft tc ts"
    and mid: "map snd mid = map (\<lambda>c. FileChunk (fst c) (snd c)) cs"
    by (auto simp: map_eq_Cons_conv)
  let ?t = "\<lparr>name = n, fileType = ft, totalChunks = tc, totalSize = ts,
             chunks = replicate tc None, receivedCount = 0\<rparr>"
  let ?r1 = "App_onData (fst e0) (FileStart n ft tc ts) r"
  have r1: "incomingTransferRef ?r1 = Some ?t"
    using assms(3) by (simp add: App_onData_start)
  have "incomingTransferRef (App_receive mid ?r1) =
           Some (?t\<lparr>chunks := store cs (chunks ?t),
                   receivedCount := receivedCount ?t + length cs\<rparr>)
       \<and> receivedFiles (App_receive mid ?r1) = receivedFiles ?r1"
    using assms(2) by (intro App_receive_chunks [OF mid r1]) simp
  moreover have "App_receive evs r = App_receive mid ?r1"
    using e0 by (cases e0) (simp add: evs)
  ultimately show ?thesis by simp
qed

text \<open>
  Claim C4, as amended. When an end message finds \<open>receivedCount = totalChunks\<close> after a
  single start message (in the PeerJS component: the chunks having carried each index
  below \<open>totalChunks\<close> once), exactly one file is appended; its name is that of the
  start message, its type is the start message's \<open>fileType\<close> as the \<open>Blob\<close> constructor
  keeps it (in ASCII lower case, or empty when it has a character outside U+0020 to
  U+007E), and its bytes are the chunks received, concatenated in slot order. Its
  length is therefore the sum of the lengths of the chunks, which is the announced
  \<open>totalSize\<close> only if the chunks add up to it: the receiver never reads \<open>totalSize\<close>.
  (The start message has installed a transfer, so its chunk count is below \<open>2^32\<close>.)
\<close>

theorem full_buffer_end_emits_file:
  "(map snd evs =
       StringData (FileStart n ft tc ts) # map BinaryData ds @ [StringData FileEnd]
     \<and> length ds = tc \<and> tc < 2 ^ 32 \<longrightarrow>
       (\<exists>t. incomingTransferRef (receive (butlast evs) r) = Some t
            \<and> receivedCount t = totalChunks t)
     \<and> receive evs r =
         \<lparr>incomingTransferRef = None,
          receivedFiles = receivedFiles r @
            [\<lparr>rf_name = n,
              rf_data = \<lparr>blob_bytes = concat ds, blob_type = normalize_type ft\<rparr>,
              rf_timestamp = fst (last evs)\<rparr>],
          downloadProgress = Const 0, transferStatus = ''''\<rparr>
     \<and> length (concat ds) = sum_list (map length ds))
   \<and> (map snd evs' =
       FileStart n ft tc ts # map (\<lambda>c. FileChunk (fst c) (snd c)) cs @ [FileEnd]
     \<and> distinct (map fst cs) \<and> (\<forall>c\<in>set cs. fst c < tc) \<and> length cs = tc
     \<and> tc < 2 ^ 32 \<longrightarrow>
       (\<exists>t. incomingTransferRef (App_receive (butlast evs') r') = Some t
            \<and> receivedCount t = totalChunks t)
     \<and> App_receive evs' r' =
         \<lparr>incomingTransferRef = None,
          receivedFiles = receivedFiles r' @
            [\<lparr>rf_name = n,
              rf_data = \<lparr>blob_bytes = concat (map (\<lambda>i. the (map_of cs i)) [0..<tc]),
                         blob_type = normalize_type ft\<rparr>,
              rf_timestamp = fst (last evs')\<rparr>],
          downloadProgress = Const 0, transferStatus = ''''\<rparr>
     \<and> length (concat (map (\<lambda>i. the (map_of cs i)) [0..<tc])) =
         sum_list (map (\<lambda>c. length (snd c)) cs))"
proof (intro conjI impI)
  assume "map snd evs =
       StringData (FileStart n ft tc ts) # map BinaryData ds @ [StringData FileEnd]
     \<and> length ds = tc \<and> tc < 2 ^ 32"
  then have m: "map snd evs =
       StringData (FileStart n ft tc ts) # map BinaryData ds @ [StringData FileEnd]"
    and l: "length ds = tc" and small: "tc < 2 ^ 32" by auto
  from m have "map snd (butlast evs) = StringData (FileStart n ft tc ts) # map BinaryData ds"
    by (rule butlast_framed)
  from receive_started [OF this small, of r] l
  show "\<exists>t. incomingTransferRef (receive (butlast evs) r) = Some t
            \<and> receivedCount t = totalChunks t"
    by simp
  from receive_transfer [OF m small, of r] l
  show "receive evs r =
         \<lparr>incomingTransferRef = None,
          receivedFiles = receivedFiles r @
            [\<lparr>rf_name = n,
              rf_data = \<lparr>blob_bytes = concat ds, blob_type = normalize_type ft\<rparr>,
              rf_timestamp = fst (last evs)\<rparr>],
          downloadProgress = Const 0, transferStatus = ''''\<rparr>"
    by (simp add: new_Blob_full)
  show "length (concat ds) = sum_list (map length ds)"
    by (simp add: length_concat)
next
  assume "map snd evs' =
       FileStart n ft tc ts # map (\<lambda>c. FileChunk (fst c) (snd c)) cs @ [FileEnd]
     \<and> distinct (map fst cs) \<and> (\<forall>c\<in>set cs. fst c < tc) \<and> length cs = tc
     \<and> tc < 2 ^ 32"
  then have m: "map snd evs' =
       FileStart n ft tc ts # map (\<lambda>c. FileChunk (fst c) (snd c)) cs @ [FileEnd]"
    and d: "distinct (map fst cs)" and b: "\<forall>c\<in>set cs. fst c < tc" and l: "length cs = tc"
    and small: "tc < 2 ^ 32"
    by auto
  from m have "map snd (butlast evs') =
      FileStart n ft tc ts # map (\<lambda>c. FileChunk (fst c) (snd c)) cs"
    by (rule butlast_framed)
  from App_receive_started [OF this b small, of r'] l
  show "\<exists>t. incomingTransferRef (App_receive (butlast evs') r') = Some t
            \<and> receivedCount t = totalChunks t"
    by simp
  from App_receive_transfer [OF m d b l small, of r']
  show "App_receive evs' r' =
         \<lparr>incomingTransferRef = None,
          receivedFiles = receivedFiles r' @
            [\<lparr>rf_name = n,
              rf_data = \<lparr>blob_bytes = concat (map (\<lambda>i. the (map_of cs i)) [0..<tc]),
                         blob_type = normalize_type ft\<rparr>,
              rf_timestamp = fst (last evs')\<rparr>],
          downloadProgress = Const 0, transferStatus = ''''\<rparr>" .
  from payload_total [OF d b l]
  show "length (concat (map (\<lambda>i. the (map_of cs i)) [0..<tc])) =
         sum_list (map (\<lambda>c. length (snd c)) cs)" .
qed

text \<open>
  The witness: a transfer of two chunks announced with the type \<open>Text/Plain\<close>, in
  arrival order on the manual receiver and in reverse order on the PeerJS receiver.
\<close>

theorem full_buffer_end_emits_file_witness:
  "receive
     [(1, StringData (FileStart ''f'' ''Text/Plain'' 2 3)), (2, BinaryData [1, 2]),
      (3, BinaryData [3]), (4, StringData FileEnd)] initial =
     \<lparr>incomingTransferRef = None,
      receivedFiles =
        [\<lparr>rf_name = ''f'', rf_data = \<lparr>blob_bytes = [1, 2, 3], blob_type = ''text/plain''\<rparr>,
          rf_timestamp = 4\<rparr>],
      downloadProgress = Const 0, transferStatus = ''''\<rparr>
   \<and> App_receive
     [(1, FileStart ''f'' ''Text/Plain'' 2 3), (2, FileChunk 1 [3]), (3, FileChunk 0 [1, 2]),
      (4, FileEnd)] initial =
     \<lparr>incomingTransferRef = None,
      receivedFiles =
        [\<lparr>rf_name = ''f'', rf_data = \<lparr>blob_bytes = [1, 2, 3], blob_type = ''text/plain''\<rparr>,
          rf_timestamp = 4\<rparr>],
      downloadProgress = Const 0, transferStatus = ''''\<rparr>"
proof -
  have m: "map snd
     [(1::nat, StringData (FileStart ''f'' ''Text/Plain'' 2 3)), (2, BinaryData [1, 2]),
      (3, BinaryData [3]), (4, StringData FileEnd)] =
     StringData (FileStart ''f'' ''Text/Plain'' 2 3) # map BinaryData [[1, 2], [3]]
       @ [StringData FileEnd]"
    by simp
  have l: "length [[1, 2], [3 :: byte]] = 2" by simp
  have s: "(2 :: nat) < 2 ^ 32" by simp
  have m': "map snd
     [(1::nat, FileStart ''f'' ''Text/Plain'' 2 3), (2, FileChunk 1 [3]),
      (3, FileChunk 0 [1, 2]), (4, FileEnd)] =
     FileStart ''f'' ''Text/Plain'' 2 3
       # map (\<lambda>c. FileChunk (fst c) (snd c)) [(1, [3]), (0, [1, 2])] @ [FileEnd]"
    by simp
  have d': "distinct (map fst [(1::nat, [3 :: byte]), (0, [1, 2])])" by simp
  have b': "\<forall>c\<in>set [(1::nat, [3 :: byte]), (0, [1, 2])]. fst c < 2" by simp
  have l': "length [(1::nat, [3 :: byte]), (0, [1, 2])] = 2" by simp
  have ty: "normalize_type ''Text/Plain'' = ''text/plain''"
    by (simp add: normalize_type_def ascii_lower_def)
  note a = full_buffer_end_emits_file [THEN conjunct1, rule_format,
      OF conjI [OF m conjI [OF l s]], THEN conjunct2, THEN conjunct1, of initial]
  note b = full_buffer_end_emits_file [THEN conjunct2, rule_format,
      OF conjI [OF m' conjI [OF d' conjI [OF b' conjI [OF l' s]]]],
      THEN conjunct2, THEN conjunct1, of initial]
  from a have a': "receive
     [(1, StringData (FileStart ''f'' ''Text/Plain'' 2 3)), (2, BinaryData [1, 2]),
      (3, BinaryData [3]), (4, StringData FileEnd)] initial =
     \<lparr>incomingTransferRef = None,
      receivedFiles =
        [\<lparr>rf_name = ''f'', rf_data = \<lparr>blob_bytes = [1, 2, 3], blob_type = ''text/plain''\<rparr>,
          rf_timestamp = 4\<rparr>],
      downloadProgress = Const 0, transferStatus = ''''\<rparr>"
    by (simp add: initial_def ty)
  from b have b'': "App_receive
     [(1, FileStart ''f'' ''Text/Plain'' 2 3), (2, FileChunk 1 [3]), (3, FileChunk 0 [1, 2]),
      (4, FileEnd)] initial =
     \<lparr>incomingTransferRef = None,
      receivedFiles =
        [\<lparr>rf_name = ''f'', rf_data = \<lparr>blob_bytes = [1, 2, 3], blob_type = ''text/plain''\<rparr>,
          rf_timestamp = 4\<rparr>],
      downloadProgress = Const 0, transferStatus = ''''\<rparr>"
    by (simp add: initial_def upt_rec ty)
  show ?thesis
    by (intro conjI) (rule a', rule b'')
qed

text \<open>
  The claim as stated fails twice on one transfer: a start message announces 5 bytes of
  type \<open>Text/Plain\<close> in one chunk, one chunk of 3 bytes arrives, and the end message
  finds \<open>receivedCount = totalChunks = 1\<close>. The file appended has 3 bytes, and its type
  is \<open>text/plain\<close>.
\<close>

theorem announced_size_counterexample:
  "incomingTransferRef
     (receive [(0, StringData (FileStart ''f'' ''Text/Plain'' 1 5)),
        (1, BinaryData [1, 2, 3])] initial) =
     Some \<lparr>name = ''f'', fileType = ''Text/Plain'', totalChunks = 1, totalSize = 5,
           chunks = [Some [1, 2, 3]], receivedCount = 1\<rparr>
   \<and> receive [(0, StringData (FileStart ''f'' ''Text/Plain'' 1 5)),
        (1, BinaryData [1, 2, 3]), (2, StringData FileEnd)] initial =
     \<lparr>incomingTransferRef = None,
      receivedFiles =
        [\<lparr>rf_name = ''f'', rf_data = \<lparr>blob_bytes = [1, 2, 3], blob_type = ''text/plain''\<rparr>,
          rf_timestamp = 2\<rparr>],
      downloadProgress = Const 0, transferStatus = ''''\<rparr>
   \<and> length [1, 2, 3 :: byte] \<noteq> 5
   \<and> ''text/plain'' \<noteq> ''Text/Plain''"
  by (simp add: initial_def onmessage_start onmessage_end onmessage_binary
      handleChunkData_def array_set_def new_Blob_def blob_part_def
      normalize_type_def ascii_lower_def)

subsection \<open>Counting the filled slots\<close>

lemma filled_Nil [simp]: "filled [] = 0"
  by (simp add: filled_def)

lemma filled_append [simp]: "filled (xs @ ys) = filled xs + filled ys"
  by (simp add: filled_def)

lemma filled_replicate_None [simp]: "filled (replicate k None) = 0"
  by (simp add: filled_def)

lemma filled_map_Some [simp]: "filled (map Some ds) = length ds"
  by (simp add: filled_def)

lemma filled_Cons [simp]: "filled (x # xs) = (if x = None then 0 else 1) + filled xs"
  by (simp add: filled_def)

lemma filled_update:
  assumes "i < length a"
  shows "filled (a[i := Some d]) = filled a + (if a ! i = None then 1 else 0)"
proof -
  have "filled (a[i := Some d]) = filled (take i a @ Some d # drop (Suc i) a)"
    using assms by (simp add: upd_conv_take_nth_drop)
  moreover have "filled a = filled (take i a @ a ! i # drop (Suc i) a)"
    using id_take_nth_drop [OF assms] by simp
  ultimately show ?thesis by simp
qed

lemma filled_array_set_le: "filled (array_set a i d) \<le> filled a + 1"
  by (simp add: array_set_def filled_update)

lemma filled_all: "filled xs = length xs \<longleftrightarrow> list_all (\<lambda>c. c \<noteq> None) xs"
proof (induction xs)
  case Nil
  show ?case by (simp add: filled_def)
next
  case (Cons x xs)
  have "filled xs \<le> length xs" by (simp add: filled_def)
  with Cons show ?case by auto
qed

subsection \<open>Buffers filled in arrival order\<close>

lemma arrival_initial: "arrival_shape initial"
  by (simp add: arrival_shape_def initial_def)

lemma arrival_step: "arrival_shape r \<Longrightarrow> arrival_shape (onmessage now ev r)"
proof (cases ev)
  case (StringData m)
  assume "arrival_shape r"
  then show ?thesis
    by (cases m)
      (auto simp: StringData onmessage_def handleTransferMessage_def settle_def arrival_shape_def
        new_Array_def split: option.splits)
next
  case (BinaryData d)
  assume a: "arrival_shape r"
  show ?thesis
  proof (cases "incomingTransferRef r")
    case None
    then show ?thesis
      using a by (simp add: BinaryData onmessage_def handleChunkData_def)
  next
    case (Some t)
    with a obtain pre where c: "chunks t = map Some pre @ replicate (totalChunks t - length pre) None"
      and n: "receivedCount t = length pre"
      by (auto simp: arrival_shape_def)
    have "\<exists>pre'. map Some (pre @ [d]) @ replicate (totalChunks t - length pre - 1) None
         = map Some pre' @ replicate (totalChunks t - length pre') None
         \<and> length pre + 1 = length pre'"
      by (rule exI [of _ "pre @ [d]"]) simp
    then show ?thesis
      using handleChunkData_next [OF Some c n, of d]
      by (simp add: BinaryData onmessage_def arrival_shape_def)
  qed
qed

lemma arrival_run: "arrival_shape r \<Longrightarrow> arrival_shape (receive evs r)"
proof (induction evs arbitrary: r)
  case Nil
  then show ?case by simp
next
  case (Cons e evs)
  obtain now ev where e: "e = (now, ev)" by (cases e)
  from Cons.prems have "arrival_shape (onmessage now ev r)" by (rule arrival_step)
  then have "arrival_shape (receive evs (onmessage now ev r))" by (rule Cons.IH)
  then show ?case by (simp add: e)
qed

lemma arrival_counts:
  assumes "arrival_shape r" and "incomingTransferRef r = Some t"
  shows "filled (chunks t) = receivedCount t
     \<and> (complete t \<longleftrightarrow> totalChunks t \<le> receivedCount t)"
proof -
  from assms obtain pre where
    c: "chunks t = map Some pre @ replicate (totalChunks t - length pre) None"
    and n: "receivedCount t = length pre"
    by (auto simp: arrival_shape_def)
  have "complete t \<longleftrightarrow> totalChunks t \<le> length pre"
  proof (cases "totalChunks t \<le> length pre")
    case True
    then show ?thesis
      by (auto simp: complete_def c list_all_iff take_map)
  next
    case False
    then have "None \<in> set (take (totalChunks t) (chunks t))"
      by (simp add: c)
    with False show ?thesis
      by (auto simp: complete_def list_all_iff)
  qed
  then show ?thesis by (simp add: c n)
qed

subsection \<open>Buffers filled by index\<close>

lemma bounded_step: "bounded_shape r \<Longrightarrow> bounded_shape (App_onData now m r)"
proof (cases m)
  case (FileChunk i d)
  assume b: "bounded_shape r"
  show ?thesis
  proof (cases "incomingTransferRef r")
    case None
    then show ?thesis using b by (simp add: FileChunk App_onData_def App_listener_def settle_def)
  next
    case (Some t)
    with b have "filled (chunks t) \<le> receivedCount t"
      by (simp add: bounded_shape_def)
    with filled_array_set_le [of "chunks t" i d]
    have "filled (array_set (chunks t) i d) \<le> receivedCount t + 1"
      by simp
    then show ?thesis
      by (simp add: FileChunk App_onData_chunk [OF Some] bounded_shape_def)
  qed
qed (auto simp: App_onData_def App_listener_def settle_def bounded_shape_def new_Array_def split: option.splits)

lemma bounded_run: "bounded_shape r \<Longrightarrow> bounded_shape (App_receive evs r)"
proof (induction evs arbitrary: r)
  case Nil
  then show ?case by simp
next
  case (Cons e evs)
  obtain now m where e: "e = (now, m)" by (cases e)
  from Cons.prems have "bounded_shape (App_onData now m r)" by (rule bounded_step)
  then have "bounded_shape (App_receive evs (App_onData now m r))" by (rule Cons.IH)
  then show ?case by (simp add: e)
qed

lemma counted_step:
  "counted_shape r \<Longrightarrow> fresh_slot m r \<Longrightarrow> counted_shape (App_onData now m r)"
proof (cases m)
  case (FileChunk i d)
  assume "counted_shape r" "fresh_slot m r"
  then show ?thesis
    by (auto simp: FileChunk App_onData_def App_listener_def settle_def counted_shape_def fresh_slot_def array_set_def
        filled_update split: option.splits)
qed (auto simp: App_onData_def App_listener_def settle_def counted_shape_def new_Array_def split: option.splits)

lemma counted_run:
  "counted_shape r \<Longrightarrow> fresh_run evs r \<Longrightarrow> counted_shape (App_receive evs r)"
proof (induction evs arbitrary: r)
  case Nil
  then show ?case by simp
next
  case (Cons e evs)
  obtain now m where e: "e = (now, m)" by (cases e)
  from Cons.prems(2) have f: "fresh_slot m r" and rest: "fresh_run evs (App_onData now m r)"
    by (simp_all add: e)
  from Cons.prems(1) f have "counted_shape (App_onData now m r)" by (rule counted_step)
  then have "counted_shape (App_receive evs (App_onData now m r))" using rest by (rule Cons.IH)
  then show ?case by (simp add: e)
qed

lemma counted_complete:
  assumes "counted_shape r" and "incomingTransferRef r = Some t"
  shows "filled (chunks t) = receivedCount t
     \<and> (complete t \<longleftrightarrow> receivedCount t = totalChunks t)"
proof -
  from assms have f: "filled (chunks t) = receivedCount t"
    and l: "length (chunks t) = totalChunks t"
    by (auto simp: counted_shape_def)
  have "complete t \<longleftrightarrow> list_all (\<lambda>c. c \<noteq> None) (chunks t)"
    using l by (simp add: complete_def)
  also have "\<dots> \<longleftrightarrow> filled (chunks t) = length (chunks t)"
    by (simp add: filled_all)
  finally show ?thesis using f l by simp
qed

text \<open>
  Claim C2, as amended. In the manual component, in every reachable state with a
  transfer in progress, \<open>receivedCount\<close> is the number of non-empty slots, and every one
  of the \<open>totalChunks\<close> slots is filled exactly when \<open>receivedCount\<close> has reached
  \<open>totalChunks\<close> (the buffer grows when more chunks arrive). In the PeerJS component the
  number of non-empty slots is at most \<open>receivedCount\<close>; it equals \<open>receivedCount\<close>, and
  every slot is filled exactly when \<open>receivedCount = totalChunks\<close>, as long as each chunk
  so far went to an empty slot inside the buffer.
\<close>

theorem received_count_and_slots:
  "(incomingTransferRef (receive evs initial) = Some t \<longrightarrow>
      filled (chunks t) = receivedCount t
      \<and> (complete t \<longleftrightarrow> totalChunks t \<le> receivedCount t))
   \<and> (incomingTransferRef (App_receive evs' initial) = Some t' \<longrightarrow>
      filled (chunks t') \<le> receivedCount t'
      \<and> (fresh_run evs' initial \<longrightarrow>
           filled (chunks t') = receivedCount t'
           \<and> (complete t' \<longleftrightarrow> receivedCount t' = totalChunks t')))"
proof (intro conjI impI)
  assume s: "incomingTransferRef (receive evs initial) = Some t"
  have "arrival_shape (receive evs initial)"
    using arrival_initial by (rule arrival_run)
  from arrival_counts [OF this s]
  show "filled (chunks t) = receivedCount t"
    and "complete t \<longleftrightarrow> totalChunks t \<le> receivedCount t"
    by auto
next
  assume s: "incomingTransferRef (App_receive evs' initial) = Some t'"
  have "bounded_shape initial" by (simp add: bounded_shape_def initial_def)
  then have "bounded_shape (App_receive evs' initial)" by (rule bounded_run)
  with s show "filled (chunks t') \<le> receivedCount t'"
    by (simp add: bounded_shape_def)
  assume fr: "fresh_run evs' initial"
  have "counted_shape initial" by (simp add: counted_shape_def initial_def)
  then have "counted_shape (App_receive evs' initial)" using fr by (rule counted_run)
  from counted_complete [OF this s]
  show "filled (chunks t') = receivedCount t'"
    and "complete t' \<longleftrightarrow> receivedCount t' = totalChunks t'"
    by auto
qed

lemma replicate_2: "replicate 2 x = [x, x]"
  by (simp add: numeral_2_eq_2)

theorem received_count_and_slots_witness:
  "incomingTransferRef
     (receive [(0, StringData (FileStart ''f'' ''t'' 2 2)), (1, BinaryData [1])] initial) =
     Some \<lparr>name = ''f'', fileType = ''t'', totalChunks = 2, totalSize = 2,
           chunks = [Some [1], None], receivedCount = 1\<rparr>
   \<and> filled [Some [1 :: byte], None] = 1
   \<and> \<not> complete \<lparr>name = ''f'', fileType = ''t'', totalChunks = 2, totalSize = 2,
           chunks = [Some [1], None], receivedCount = 1\<rparr>
   \<and> fresh_run [(0, FileStart ''f'' ''t'' 2 2), (1, FileChunk 1 [2])] initial
   \<and> incomingTransferRef
     (App_receive [(0, FileStart ''f'' ''t'' 2 2), (1, FileChunk 1 [2])] initial) =
     Some \<lparr>name = ''f'', fileType = ''t'', totalChunks = 2, totalSize = 2,
           chunks = [None, Some [2]], receivedCount = 1\<rparr>
   \<and> filled [None, Some [2 :: byte]] = 1
   \<and> \<not> complete \<lparr>name = ''f'', fileType = ''t'', totalChunks = 2, totalSize = 2,
           chunks = [None, Some [2]], receivedCount = 1\<rparr>"
proof -
  have s: "incomingTransferRef
     (receive [(0, StringData (FileStart ''f'' ''t'' 2 2)), (1, BinaryData [1])] initial) =
     Some \<lparr>name = ''f'', fileType = ''t'', totalChunks = 2, totalSize = 2,
           chunks = [Some [1], None], receivedCount = 1\<rparr>"
    by (simp add: initial_def onmessage_def handleTransferMessage_def settle_def handleChunkData_def
        new_Array_def array_set_def replicate_2)
  have fr: "fresh_run [(0, FileStart ''f'' ''t'' 2 2), (1, FileChunk 1 [2])] initial"
    by (simp add: initial_def fresh_slot_def App_onData_def App_listener_def settle_def new_Array_def replicate_2)
  have s': "incomingTransferRef
     (App_receive [(0, FileStart ''f'' ''t'' 2 2), (1, FileChunk 1 [2])] initial) =
     Some \<lparr>name = ''f'', fileType = ''t'', totalChunks = 2, totalSize = 2,
           chunks = [None, Some [2]], receivedCount = 1\<rparr>"
    by (simp add: initial_def App_onData_def App_listener_def settle_def new_Array_def array_set_def replicate_2)
  note a = received_count_and_slots [THEN conjunct1, rule_format, OF s]
  note b = received_count_and_slots [THEN conjunct2, rule_format, OF s',
      THEN conjunct2, rule_format, OF fr]
  from a have a1: "filled [Some [1 :: byte], None] = 1"
    and a2: "\<not> complete \<lparr>name = ''f'', fileType = ''t'', totalChunks = 2, totalSize = 2,
           chunks = [Some [1], None], receivedCount = 1\<rparr>"
    by simp_all
  from b have b1: "filled [None, Some [2 :: byte]] = 1"
    and b2: "\<not> complete \<lparr>name = ''f'', fileType = ''t'', totalChunks = 2, totalSize = 2,
           chunks = [None, Some [2]], receivedCount = 1\<rparr>"
    by simp_all
  show ?thesis
    by (intro conjI) (rule s, rule a1, rule a2, rule fr, rule s', rule b1, rule b2)
qed

text \<open>
  The claim as stated fails. PeerJS component: chunk 0 of 2 arrives twice;
  \<open>receivedCount\<close> is 2 and equals \<open>totalChunks\<close>, but one slot is filled and the transfer
  is not complete. Manual component: two chunks arrive for a transfer of one; the
  transfer is complete, and \<open>receivedCount\<close> is 2, not \<open>totalChunks\<close>.
\<close>

theorem repeated_index_counterexample:
  "incomingTransferRef
     (App_receive [(0, FileStart ''f'' ''t'' 2 2), (1, FileChunk 0 [1]), (2, FileChunk 0 [1])]
        initial) =
     Some \<lparr>name = ''f'', fileType = ''t'', totalChunks = 2, totalSize = 2,
           chunks = [Some [1], None], receivedCount = 2\<rparr>
   \<and> filled [Some [1 :: byte], None] = 1
   \<and> \<not> complete \<lparr>name = ''f'', fileType = ''t'', totalChunks = 2, totalSize = 2,
           chunks = [Some [1], None], receivedCount = 2\<rparr>
   \<and> incomingTransferRef
     (receive [(0, StringData (FileStart ''f'' ''t'' 1 2)), (1, BinaryData [1]),
        (2, BinaryData [2])] initial) =
     Some \<lparr>name = ''f'', fileType = ''t'', totalChunks = 1, totalSize = 2,
           chunks = [Some [1], Some [2]], receivedCount = 2\<rparr>
   \<and> complete \<lparr>name = ''f'', fileType = ''t'', totalChunks = 1, totalSize = 2,
           chunks = [Some [1], Some [2]], receivedCount = 2\<rparr>"
  by (simp add: initial_def App_onData_def App_listener_def settle_def onmessage_def handleTransferMessage_def settle_def
      handleChunkData_def new_Array_def array_set_def filled_def complete_def replicate_2)

end
